theory Spec2Isabelle
  imports Main
begin

section \<open>Constants of content.js\<close>

definition replacementFontName :: string where
  "replacementFontName = ''Twemoji Country Flags''"

definition extentionStyleTagId :: string where
  "extentionStyleTagId = ''country-flag-fixer-ext''"

section \<open>Data model\<close>

text \<open>
  A rule as the CSSOM exposes it to the script. \<open>rule_selectorText\<close> is \<open>None\<close> for a
  rule without selector (an at-rule); \<open>rule_fontFamily\<close> is \<open>rule.style?.fontFamily\<close>,
  \<open>None\<close> when the rule has no style block and \<open>Some []\<close> when the block sets no font family.
\<close>

record css_rule =
  rule_selectorText :: "string option"
  rule_fontFamily :: "string option"
  rule_cssText :: string

text \<open>The object literal \<open>{ selectorText, fontFamily }\<close> pushed by the collector.\<close>

record fontFamilyRule =
  selectorText :: string
  fontFamily :: string

text \<open>
  The element found by \<open>getElementById(extentionStyleTagId)\<close>. \<open>sheet\<close> is
  \<open>element.sheet.cssRules\<close>; it is \<open>None\<close> when the element carrying the id has no
  \<open>sheet\<close> property (reading \<open>.cssRules\<close> of it then raises a TypeError).
\<close>

record style_tag =
  tag_id :: string
  textContent :: string
  sheet :: "css_rule list option"

record owner_node =
  node_id :: string
  node_rel :: string

text \<open>
  One entry of \<open>document.styleSheets\<close>. \<open>ownerNode\<close> is nullable in the CSSOM;
  \<open>cssRules\<close> is \<open>None\<close> when reading the rule list raises (a cross-origin sheet).
\<close>

record stylesheet =
  ownerNode :: "owner_node option"
  mediaText :: string
  href :: "string option"
  cssRules :: "css_rule list option"

text \<open>
  An element as \<open>preserveCustomFonts\<close> sees it: its \<open>style\<close> attribute, and the calls
  \<open>element.style.setProperty(name, value, priority)\<close> made on it, in order. What the
  \<open>style\<close> attribute reads after such a call is the browser's doing: \<open>style_after\<close> is
  its answer, the text of the attribute once \<open>font-family\<close> has been set to the given
  value with priority \<open>important\<close>, from the text before the call.
\<close>

record element =
  style_attr :: "string option"
  setProperty_calls :: "(string \<times> string \<times> string) list"
  style_after :: "string \<Rightarrow> string \<Rightarrow> string"

text \<open>A node of \<open>mutation.addedNodes\<close>, with the properties \<open>styleSheetsChanged\<close> reads.\<close>

record added_node =
  added_id :: string
  nodeName :: string
  added_rel :: string
  added_as :: string
  added_href :: string
  added_textContent :: string

datatype error = TypeError

text \<open>The console lines of \<open>log\<close> and \<open>logError\<close>, with the interpolated values as arguments.\<close>

datatype message =
    FetchingFrom string
  | PreloadLinkNotFound string
  | ErrorFetchingCSS
  | ProcessingSheet nat nat
  | FetchedCSS nat nat nat
  | AddedRuleFor string nat
  | ErrorRetrieving nat nat
  | FinishedLooping nat
  | UpdatingStyleTag nat
  | RunningFixer

datatype console_entry = Log nat message | LogError nat message

text \<open>
  The page and the script's globals. \<open>doc_pageSheets\<close> are the style sheets of the page's
  own nodes, in document order. The element carrying the extension's id is \<open>doc_override\<close>;
  \<open>doc_ownIndex\<close> is the number of page sheets that precede it in document order, and
  \<open>doc_headIndex\<close> the number of page sheets that precede the end of \<open>document.head\<close>,
  which is where \<open>appendChild\<close> puts a node. \<open>doc_links\<close> holds the \<open>href\<close> attribute
  of every \<open>link\<close> element (what \<open>querySelector('link[href=...]')\<close> searches); \<open>net\<close>
  is the environment's answer to fetching a URL and parsing the body as a style sheet
  (\<open>None\<close> when the fetch or the parse raises); \<open>fetches\<close> lists the requests issued.
\<close>

record state =
  doc_head :: bool
  doc_links :: "string list"
  doc_pageSheets :: "stylesheet list"
  doc_override :: "style_tag option"
  doc_ownIndex :: nat
  doc_headIndex :: nat
  doc_elements :: "element list"
  net :: "string \<Rightarrow> css_rule list option"
  fetches :: "string list"
  requestedCssFiles :: "string set"
  lastStyleSheets :: "string set"
  runCount :: nat
  console :: "console_entry list"

section \<open>Logging\<close>

definition log :: "message \<Rightarrow> state \<Rightarrow> state" where
  "log m st = st\<lparr>console := console st @ [Log (runCount st) m]\<rparr>"

definition logError :: "message \<Rightarrow> state \<Rightarrow> state" where
  "logError m st = st\<lparr>console := console st @ [LogError (runCount st) m]\<rparr>"

section \<open>Override Stylesheet Builder\<close>

definition newline :: string where
  "newline = [CHR 0x0A]"

text \<open>The text appended for one surviving rule, without the final line break.\<close>

definition overrideText :: "fontFamilyRule \<Rightarrow> string" where
  "overrideText r =
     selectorText r @ '' { font-family: '' @ [CHR 0x27] @ replacementFontName @ [CHR 0x27]
       @ '', '' @ fontFamily r @ '' !important; }''"

text \<open>
  Modelled from the spec: the browser's CSS parser, which turns the text content of the
  freshly built element into its rule list, is not part of the repository. Following
  section 4.3 of the specification (the baseline is the set of already emitted
  selector-to-rule-text entries), each emitted rule is read back as one rule with the
  selector and the text that were written.
\<close>

definition overrideRule :: "fontFamilyRule \<Rightarrow> css_rule" where
  "overrideRule r =
     \<lparr> rule_selectorText = Some (selectorText r),
       rule_fontFamily = Some ([CHR 0x27] @ replacementFontName @ [CHR 0x27] @ '', '' @ fontFamily r),
       rule_cssText = overrideText r \<rparr>"

text \<open>\<open>oldRules.some(old => old.selectorText === rule.selectorText)\<close>\<close>

definition inOldRules :: "css_rule list \<Rightarrow> fontFamilyRule \<Rightarrow> bool" where
  "inOldRules oldRules r = list_ex (\<lambda>old. rule_selectorText old = Some (selectorText r)) oldRules"

definition createNewStyleTag :: "fontFamilyRule list \<Rightarrow> style_tag option \<Rightarrow> error + style_tag" where
  "createNewStyleTag fontFamilyRules existingSheet =
     (case (case existingSheet of
              None \<Rightarrow> Inr []
            | Some e \<Rightarrow> (case sheet e of None \<Rightarrow> Inl TypeError | Some rs \<Rightarrow> Inr rs)) of
        Inl err \<Rightarrow> Inl err
      | Inr oldRules \<Rightarrow>
          (let t1 = foldl (\<lambda>t rule. t @ rule_cssText rule @ newline) [] oldRules;
               kept = filter (\<lambda>rule. \<not> inOldRules oldRules rule) fontFamilyRules;
               t2 = foldl (\<lambda>t rule. t @ overrideText rule @ newline) t1 kept
           in Inr \<lparr> tag_id = extentionStyleTagId,
                    textContent = t2,
                    sheet = Some (oldRules @ map overrideRule kept) \<rparr>))"

definition updateStyleTag :: "fontFamilyRule list \<Rightarrow> state \<Rightarrow> error + state" where
  "updateStyleTag fontFamilyRules st =
     (let existingSheet = doc_override st in
      case createNewStyleTag fontFamilyRules existingSheet of
        Inl err \<Rightarrow> Inl err
      | Inr newStyleTag \<Rightarrow>
          (let st1 = log (UpdatingStyleTag (length (textContent newStyleTag))) st;
               st2 = (if existingSheet \<noteq> None then st1\<lparr>doc_override := None\<rparr> else st1)
           in if \<not> doc_head st2 then Inr st2
              else Inr (st2\<lparr>doc_override := Some newStyleTag,
                            doc_ownIndex := doc_headIndex st2\<rparr>)))"

text \<open>The selector texts of a rule list, in order (rules without selector left out).\<close>

fun selectorTexts :: "css_rule list \<Rightarrow> string list" where
  "selectorTexts [] = []"
| "selectorTexts (r # rs) =
     (case rule_selectorText r of None \<Rightarrow> selectorTexts rs | Some s \<Rightarrow> s # selectorTexts rs)"


text \<open>The selector texts of the Override Stylesheet attached to the document.\<close>

definition overrideSelectors :: "state \<Rightarrow> string list" where
  "overrideSelectors st =
     (case doc_override st of
        None \<Rightarrow> []
      | Some t \<Rightarrow> (case sheet t of None \<Rightarrow> [] | Some rs \<Rightarrow> selectorTexts rs))"

section \<open>String helpers\<close>

text \<open>
  \<open>String.prototype.toLowerCase\<close>, \<open>includes\<close> and \<open>trim\<close>, and the class \<open>\s\<close> of
  regular expressions, on strings of characters up to U+00FF: the capital letters are
  \<open>A\<close> to \<open>Z\<close> and U+00C0 to U+00DE without the sign U+00D7, and the white space
  is that of ASCII and the no-break space U+00A0.
\<close>

definition toLowerChar :: "char \<Rightarrow> char" where
  "toLowerChar c =
     (let n = (of_char c :: nat) in
      if (65 \<le> n \<and> n \<le> 90) \<or> (192 \<le> n \<and> n \<le> 222 \<and> n \<noteq> 215)
      then char_of (n + 32) else c)"

definition toLowerCase :: "string \<Rightarrow> string" where
  "toLowerCase s = map toLowerChar s"

definition startsWith :: "string \<Rightarrow> string \<Rightarrow> bool" where
  "startsWith s p = (take (length p) s = p)"

fun str_includes :: "string \<Rightarrow> string \<Rightarrow> bool" where
  "str_includes [] p = (p = [])"
| "str_includes (c # cs) p = (startsWith (c # cs) p \<or> str_includes cs p)"

definition isSpace :: "char \<Rightarrow> bool" where
  "isSpace c =
     (c \<in> set [CHR 0x09, CHR 0x0A, CHR 0x0B, CHR 0x0C, CHR 0x0D, CHR 0x20, CHR 0xA0])"

definition trim :: "string \<Rightarrow> string" where
  "trim s = dropWhile isSpace (rev (dropWhile isSpace (rev s)))"

section \<open>Rule Extractor\<close>

text \<open>
  \<open>fetchCSSRulesFromUrl\<close>. The request is issued only when a \<open>link\<close> element with that
  \<open>href\<close> exists. The temporary style element is appended to \<open>document.head\<close>; without
  a head that raises inside the \<open>try\<close> block, and the \<open>catch\<close> returns the empty list.
\<close>

definition fetchCSSRulesFromUrl :: "string \<Rightarrow> state \<Rightarrow> css_rule list \<times> state" where
  "fetchCSSRulesFromUrl styleHref st =
     (let st1 = log (FetchingFrom styleHref) st in
      if styleHref \<notin> set (doc_links st1) then ([], logError (PreloadLinkNotFound styleHref) st1)
      else
        (let st2 = st1\<lparr>fetches := fetches st1 @ [styleHref]\<rparr> in
         case net st2 styleHref of
           None \<Rightarrow> ([], logError ErrorFetchingCSS st2)
         | Some rules \<Rightarrow>
             if \<not> doc_head st2 then ([], logError ErrorFetchingCSS st2) else (rules, st2)))"

section \<open>Font Rule Collector\<close>

definition sheetMediaBlacklist :: "string list" where
  "sheetMediaBlacklist =
     [''print'', ''speech'', ''aural'', ''braille'', ''handheld'', ''projection'', ''tty'']"

text \<open>Step 2 of the loop body: the inner loop over the rules of one stylesheet.\<close>

fun collectRules :: "css_rule list \<Rightarrow> fontFamilyRule list \<Rightarrow> state \<Rightarrow> fontFamilyRule list \<times> state" where
  "collectRules [] fontFamilyRules st = (fontFamilyRules, st)"
| "collectRules (rule # rest) fontFamilyRules st =
     (case rule_fontFamily rule of
        None \<Rightarrow> collectRules rest fontFamilyRules st
      | Some ff \<Rightarrow>
          if ff = [] then collectRules rest fontFamilyRules st
          else (case rule_selectorText rule of
              None \<Rightarrow> collectRules rest fontFamilyRules st
            | Some sel \<Rightarrow>
                if sel = [] then collectRules rest fontFamilyRules st
                else if ff = ''inherit'' then collectRules rest fontFamilyRules st
                else if str_includes (toLowerCase ff) (toLowerCase replacementFontName)
                  then collectRules rest fontFamilyRules st
                else collectRules rest
                       (fontFamilyRules @ [\<lparr>selectorText = sel, fontFamily = ff\<rparr>])
                       (log (AddedRuleFor sel (length fontFamilyRules)) st)))"

text \<open>
  \<open>document.styleSheets\<close> is a live list in document order: the sheets of the page,
  with the sheet of the element carrying the extension's id (when it has one) at its
  place among them. It is computed from the state each time it is read.
\<close>

definition ownSheets :: "state \<Rightarrow> stylesheet list" where
  "ownSheets st =
     (case doc_override st of
        None \<Rightarrow> []
      | Some t \<Rightarrow>
          (case sheet t of
             None \<Rightarrow> []
           | Some rs \<Rightarrow>
               [\<lparr> ownerNode = Some \<lparr>node_id = extentionStyleTagId, node_rel = []\<rparr>,
                  mediaText = [], href = None, cssRules = Some rs \<rparr>]))"

definition styleSheets :: "state \<Rightarrow> stylesheet list" where
  "styleSheets st =
     take (doc_ownIndex st) (doc_pageSheets st) @ ownSheets st
       @ drop (doc_ownIndex st) (doc_pageSheets st)"

text \<open>Steps 2 and 3 of the loop body, inside the outer \<open>try\<close>.\<close>

definition collectAndUpdate :: "css_rule list \<Rightarrow> nat \<Rightarrow> state \<Rightarrow> state" where
  "collectAndUpdate rules sheetCount st =
     (case collectRules rules [] st of
        (fontFamilyRules, st1) \<Rightarrow>
          (case updateStyleTag fontFamilyRules st1 of
             Inl err \<Rightarrow> logError (ErrorRetrieving sheetCount (length (styleSheets st1))) st1
           | Inr st2 \<Rightarrow> st2))"

text \<open>
  One iteration of the loop over \<open>document.styleSheets\<close>; \<open>sheetCount\<close> is the counter
  after its increment. \<open>Inl\<close> is an exception that leaves the loop: the two checks before
  the \<open>try\<close> block read \<open>sheet.ownerNode.id\<close>, which raises when the owner node is null.
\<close>

definition processSheet :: "stylesheet \<Rightarrow> nat \<Rightarrow> state \<Rightarrow> (error \<times> state) + state" where
  "processSheet sh sheetCount st =
     (let st1 = log (ProcessingSheet sheetCount (length (styleSheets st))) st in
      case ownerNode sh of
        None \<Rightarrow> Inl (TypeError, st1)
      | Some owner \<Rightarrow>
          if node_id owner = extentionStyleTagId then Inr st1
          else if mediaText sh \<in> set sheetMediaBlacklist then Inr st1
          else (case cssRules sh of
              Some rules \<Rightarrow> Inr (collectAndUpdate rules sheetCount st1)
            | None \<Rightarrow>
                (case href sh of
                   None \<Rightarrow> Inr st1
                 | Some h \<Rightarrow>
                     if h = [] \<or> node_rel owner \<noteq> ''stylesheet'' \<or> h \<in> requestedCssFiles st1
                     then Inr st1
                     else (case fetchCSSRulesFromUrl h st1 of
                         (rules, st2) \<Rightarrow>
                           (let st3 = st2\<lparr>requestedCssFiles := insert h (requestedCssFiles st2)\<rparr>;
                                st4 = log (FetchedCSS (length rules) sheetCount (length (styleSheets st3))) st3
                            in Inr (collectAndUpdate rules sheetCount st4))))))"

text \<open>
  \<open>for (const sheet of document.styleSheets)\<close>: the iterator of the live list keeps an
  index; each step reads the length of the list as it is then and, when the index is
  below it, the sheet at the index. \<open>updateStyleTag\<close> moves the own sheet within the list
  while the loop runs. The page's sheets stay, and the list has at most one sheet more
  than the page, which bounds the number of steps.
\<close>

function sheetLoop :: "nat \<Rightarrow> state \<Rightarrow> (error \<times> state) + state" where
  "sheetLoop i st =
     (if i < length (styleSheets st)
      then (case processSheet (styleSheets st ! i) (Suc i) st of
              Inl x \<Rightarrow> Inl x
            | Inr st1 \<Rightarrow> sheetLoop (Suc i) st1)
      else Inr st)"
  by pat_completeness auto
termination
proof (relation "measure (\<lambda>(i, st). Suc (length (doc_pageSheets st)) - i)")
  show "wf (measure (\<lambda>(i, st). Suc (length (doc_pageSheets st)) - i))" by simp
next
  fix i :: nat and st st1 :: state
  assume i: "i < length (styleSheets st)"
    and p: "processSheet (styleSheets st ! i) (Suc i) st = Inr st1"
  have cr: "doc_pageSheets (snd (collectRules rules acc s)) = doc_pageSheets s" for rules acc s
    by (induction rules arbitrary: acc s) (auto simp: log_def split: option.splits)
  have cu: "doc_pageSheets (collectAndUpdate rules k s) = doc_pageSheets s" for rules k s
    using cr[of rules "[]" s]
    by (auto simp: collectAndUpdate_def updateStyleTag_def createNewStyleTag_def Let_def log_def
        logError_def split: prod.splits sum.splits option.splits if_splits)
  have fe: "doc_pageSheets s' = doc_pageSheets s" if "fetchCSSRulesFromUrl h s = (r, s')" for h s r s'
    using that
    by (auto simp: fetchCSSRulesFromUrl_def Let_def log_def logError_def split: option.splits if_splits)
  have "doc_pageSheets st1 = doc_pageSheets st"
    using p
    by (auto simp: processSheet_def Let_def cu log_def dest!: fe
        split: option.splits if_splits prod.splits)
  moreover have "length (styleSheets st) \<le> Suc (length (doc_pageSheets st))"
    by (auto simp: styleSheets_def ownSheets_def split: option.splits)
  ultimately show "((Suc i, st1), (i, st)) \<in> measure (\<lambda>(i, st). Suc (length (doc_pageSheets st)) - i)"
    using i by simp
qed

definition updateFontFamilyRules :: "state \<Rightarrow> (error \<times> state) + state" where
  "updateFontFamilyRules st =
     (case sheetLoop 0 st of
        Inl x \<Rightarrow> Inl x
      | Inr st1 \<Rightarrow> Inr (log (FinishedLooping (length (styleSheets st1))) st1))"

text \<open>The state a pass leaves behind, whether it returned or raised.\<close>

definition afterPass :: "(error \<times> state) + state \<Rightarrow> state" where
  "afterPass r = (case r of Inl (err, st) \<Rightarrow> st | Inr st \<Rightarrow> st)"

section \<open>Inline Style Preserver\<close>

text \<open>
  The regular expression
  \<^verbatim>\<open>/font-family\s*:\s*([^;]+?)(\s*!important)?\s*(;|$)/\<close>
  run by a backtracking matcher. \<open>tailOk\<close> is \<^verbatim>\<open>\s*(;|$)\<close>; \<open>importantOk\<close> is the
  optional group followed by that tail.
\<close>

definition tailOk :: "string \<Rightarrow> bool" where
  "tailOk rest = (case dropWhile isSpace rest of [] \<Rightarrow> True | c # cs \<Rightarrow> c = CHR '';'')"

definition importantOk :: "string \<Rightarrow> bool" where
  "importantOk rest =
     (let r = dropWhile isSpace rest in startsWith r ''!important'' \<and> tailOk (drop 10 r))"

text \<open>
  The lazy group 1, holding \<open>g\<close> so far: it stops at the first length where the rest
  matches, trying the optional group first, and grows over any character but \<open>;\<close>.
  The result is group 1 and whether group 2 took part.
\<close>

fun lazyGroup :: "string \<Rightarrow> string \<Rightarrow> (string \<times> bool) option" where
  "lazyGroup g [] =
     (if importantOk [] then Some (g, True) else if tailOk [] then Some (g, False) else None)"
| "lazyGroup g (c # cs) =
     (if importantOk (c # cs) then Some (g, True)
      else if tailOk (c # cs) then Some (g, False)
      else if c = CHR '';'' then None
      else lazyGroup (g @ [c]) cs)"

text \<open>
  After the colon: the greedy \<^verbatim>\<open>\s*\<close> takes all white space; when no character is left
  for group 1 it gives one back, which group 1 then takes.
\<close>

definition matchAfterColon :: "string \<Rightarrow> (string \<times> bool) option" where
  "matchAfterColon s =
     (let w = takeWhile isSpace s; r = dropWhile isSpace s in
      case r of
        [] \<Rightarrow> (if w = [] then None else lazyGroup [last w] r)
      | c # cs \<Rightarrow>
          if c \<noteq> CHR '';'' then lazyGroup [c] cs
          else if w = [] then None
          else lazyGroup [last w] r)"

definition matchAt :: "string \<Rightarrow> (string \<times> bool) option" where
  "matchAt s =
     (if startsWith s ''font-family'' then
        (case dropWhile isSpace (drop 11 s) of
           [] \<Rightarrow> None
         | c # cs \<Rightarrow> if c = CHR '':'' then matchAfterColon cs else None)
      else None)"

text \<open>\<open>fontFamilyRegex.exec\<close>: the leftmost position at which the expression matches.\<close>

fun fontFamilyRegex_exec :: "string \<Rightarrow> (string \<times> bool) option" where
  "fontFamilyRegex_exec [] = None"
| "fontFamilyRegex_exec (c # cs) =
     (case matchAt (c # cs) of Some m \<Rightarrow> Some m | None \<Rightarrow> fontFamilyRegex_exec cs)"

definition preserveCustomFonts :: "element option \<Rightarrow> element option" where
  "preserveCustomFonts el =
     (case el of
        None \<Rightarrow> None
      | Some e \<Rightarrow>
          (case style_attr e of
             None \<Rightarrow> Some e
           | Some inlineStyle \<Rightarrow>
               if inlineStyle = [] \<or> \<not> str_includes inlineStyle ''font-family'' then Some e
               else (case fontFamilyRegex_exec inlineStyle of
                   None \<Rightarrow> Some e
                 | Some (g1, hasIsImportant) \<Rightarrow>
                     if hasIsImportant then Some e
                     else Some (e\<lparr>setProperty_calls := setProperty_calls e
                                  @ [(''font-family'', trim g1, ''important'')],
                                style_attr := Some (style_after e inlineStyle (trim g1))\<rparr>))))"

text \<open>\<open>document.querySelectorAll('*').forEach(preserveCustomFonts)\<close>\<close>

definition preserveAll :: "element list \<Rightarrow> element list" where
  "preserveAll es = map (\<lambda>e. case preserveCustomFonts (Some e) of None \<Rightarrow> e | Some e' \<Rightarrow> e') es"

section \<open>Mutation Watcher\<close>

record mutation =
  addedNodes :: "added_node list"

definition isStylesheet :: "added_node \<Rightarrow> bool" where
  "isStylesheet node =
     (nodeName node = ''LINK'' \<and> (added_rel node = ''stylesheet'' \<or> added_as node = ''style''))"

definition isStyleNode :: "added_node \<Rightarrow> bool" where
  "isStyleNode node = (nodeName node = ''STYLE'')"

definition newStylesheetIdentifier :: "added_node \<Rightarrow> string" where
  "newStylesheetIdentifier node =
     (if isStylesheet node then added_href node else added_textContent node)"

text \<open>The body of the inner \<open>forEach\<close>, on the flag and the set of known identifiers.\<close>

definition visitNode :: "bool \<times> string set \<Rightarrow> added_node \<Rightarrow> bool \<times> string set" where
  "visitNode acc node =
     (case acc of (stylesheetChanged, known) \<Rightarrow>
        if added_id node = extentionStyleTagId then acc
        else if \<not> isStylesheet node \<and> \<not> isStyleNode node then acc
        else if newStylesheetIdentifier node \<in> known then acc
        else (True, insert (newStylesheetIdentifier node) known))"

definition styleSheetsChanged :: "mutation list \<Rightarrow> state \<Rightarrow> bool \<times> state" where
  "styleSheetsChanged mutations st =
     (case foldl (\<lambda>acc m. foldl visitNode acc (addedNodes m)) (False, lastStyleSheets st) mutations of
        (stylesheetChanged, known) \<Rightarrow> (stylesheetChanged, st\<lparr>lastStyleSheets := known\<rparr>))"

text \<open>
  The callback of the \<open>MutationObserver\<close>. An exception of \<open>updateFontFamilyRules\<close>
  rejects the callback: neither the increment nor the preserver pass runs.
\<close>

definition observerCallback :: "mutation list \<Rightarrow> state \<Rightarrow> (error \<times> state) + state" where
  "observerCallback mutations st =
     (case styleSheetsChanged mutations st of
        (changed, st1) \<Rightarrow>
          (case (if changed then
                   (case updateFontFamilyRules (log RunningFixer st1) of
                      Inl x \<Rightarrow> Inl x
                    | Inr st2 \<Rightarrow> Inr (st2\<lparr>runCount := Suc (runCount st2)\<rparr>))
                 else Inr st1) of
             Inl x \<Rightarrow> Inl x
           | Inr st3 \<Rightarrow> Inr (st3\<lparr>doc_elements := preserveAll (doc_elements st3)\<rparr>)))"

section \<open>Auxiliary notions for the statements\<close>

text \<open>What \<open>createNewStyleTag\<close> builds from a readable baseline.\<close>

definition mergedTag :: "css_rule list \<Rightarrow> fontFamilyRule list \<Rightarrow> style_tag" where
  "mergedTag oldRules batch =
     \<lparr> tag_id = extentionStyleTagId,
       textContent = concat (map (\<lambda>r. rule_cssText r @ newline) oldRules)
          @ concat (map (\<lambda>r. overrideText r @ newline) (filter (\<lambda>r. \<not> inOldRules oldRules r) batch)),
       sheet = Some (oldRules @ map overrideRule (filter (\<lambda>r. \<not> inOldRules oldRules r) batch)) \<rparr>"

text \<open>The element carrying the extension's id, if any, has a rule list.\<close>

definition overrideReadable :: "state \<Rightarrow> bool" where
  "overrideReadable st = (case doc_override st of None \<Rightarrow> True | Some e \<Rightarrow> sheet e \<noteq> None)"

text \<open>The baseline an update starts from: the rules of the attached Override Stylesheet.\<close>

definition oldRulesOf :: "state \<Rightarrow> css_rule list" where
  "oldRulesOf st =
     (case doc_override st of
        None \<Rightarrow> []
      | Some e \<Rightarrow> (case sheet e of None \<Rightarrow> [] | Some rs \<Rightarrow> rs))"

text \<open>The rule a stylesheet rule is collected as, if it passes the filters of step 2.\<close>

definition emits :: "css_rule \<Rightarrow> fontFamilyRule option" where
  "emits rule =
     (case (rule_fontFamily rule, rule_selectorText rule) of
        (Some ff, Some sel) \<Rightarrow>
          if ff = [] \<or> sel = [] \<or> ff = ''inherit''
             \<or> str_includes (toLowerCase ff) (toLowerCase replacementFontName)
          then None else Some \<lparr>selectorText = sel, fontFamily = ff\<rparr>
      | _ \<Rightarrow> None)"

definition emittedRules :: "css_rule list \<Rightarrow> fontFamilyRule list" where
  "emittedRules rules = List.map_filter emits rules"

text \<open>The console lines of step 2 for the collected rules, the first having index \<open>n\<close>.\<close>

fun addedLines :: "nat \<Rightarrow> nat \<Rightarrow> fontFamilyRule list \<Rightarrow> console_entry list" where
  "addedLines rc n [] = []"
| "addedLines rc n (r # rs) = Log rc (AddedRuleFor (selectorText r) n) # addedLines rc (Suc n) rs"

text \<open>
  Whether the loop body takes a sheet to step 3, given the addresses requested so far,
  and the addresses requested after the visit.
\<close>

definition reachesBuilder :: "string set \<Rightarrow> stylesheet \<Rightarrow> bool" where
  "reachesBuilder req sh =
     (case ownerNode sh of
        None \<Rightarrow> False
      | Some owner \<Rightarrow>
          node_id owner \<noteq> extentionStyleTagId \<and> mediaText sh \<notin> set sheetMediaBlacklist
          \<and> (case cssRules sh of
                Some rules \<Rightarrow> True
              | None \<Rightarrow>
                  (case href sh of
                     None \<Rightarrow> False
                   | Some h \<Rightarrow> h \<noteq> [] \<and> node_rel owner = ''stylesheet'' \<and> h \<notin> req)))"

definition requestedAfter :: "string set \<Rightarrow> stylesheet \<Rightarrow> string set" where
  "requestedAfter req sh =
     (if reachesBuilder req sh \<and> cssRules sh = None
      then (case href sh of None \<Rightarrow> req | Some h \<Rightarrow> insert h req) else req)"

text \<open>A sheet that is not skipped and whose rule list can be read.\<close>

definition readableSheet :: "stylesheet \<Rightarrow> bool" where
  "readableSheet sh =
     (case ownerNode sh of
        None \<Rightarrow> False
      | Some owner \<Rightarrow>
          node_id owner \<noteq> extentionStyleTagId \<and> mediaText sh \<notin> set sheetMediaBlacklist
          \<and> cssRules sh \<noteq> None)"

definition hasOwner :: "stylesheet \<Rightarrow> bool" where
  "hasOwner sh = (ownerNode sh \<noteq> None)"

text \<open>
  A sheet whose rule list cannot be read and for which the fallback applies: it is not
  the extension's own, its medium is not black-listed, and it comes from a
  \<open>rel="stylesheet"\<close> link with the non-empty address \<open>h\<close>.
\<close>

definition inaccessibleLink :: "stylesheet \<Rightarrow> string \<Rightarrow> bool" where
  "inaccessibleLink sh h =
     (case ownerNode sh of
        None \<Rightarrow> False
      | Some owner \<Rightarrow>
          node_id owner \<noteq> extentionStyleTagId \<and> mediaText sh \<notin> set sheetMediaBlacklist
          \<and> cssRules sh = None \<and> href sh = Some h \<and> h \<noteq> [] \<and> node_rel owner = ''stylesheet'')"


text \<open>The part of the state that a scan pass only reads.\<close>

definition pageOf ::
  "state \<Rightarrow> bool \<times> string list \<times> stylesheet list \<times> nat \<times> element list
     \<times> (string \<Rightarrow> css_rule list option) \<times> string set \<times> nat" where
  "pageOf st = (doc_head st, doc_links st, doc_pageSheets st, doc_headIndex st, doc_elements st,
     net st, lastStyleSheets st, runCount st)"

text \<open>
  An added node that makes \<open>styleSheetsChanged\<close> answer true, given the identifiers known
  before the batch: it does not carry the extension's id, it is a \<open>link\<close> with
  \<open>rel="stylesheet"\<close> or \<open>as="style"\<close> or a \<open>style\<close> element, and its identifier is new.
\<close>

definition isNewSheetNode :: "string set \<Rightarrow> added_node \<Rightarrow> bool" where
  "isNewSheetNode known node =
     (added_id node \<noteq> extentionStyleTagId \<and> (isStylesheet node \<or> isStyleNode node)
      \<and> newStylesheetIdentifier node \<notin> known)"

definition allAddedNodes :: "mutation list \<Rightarrow> added_node list" where
  "allAddedNodes mutations = concat (map addedNodes mutations)"



text \<open>From \<open>st\<close> to \<open>st'\<close> nothing changed but the console and that place.\<close>

definition quietly :: "state \<Rightarrow> state \<Rightarrow> bool" where
  "quietly st st' = (\<exists>c k. st' = st\<lparr>console := console st @ c, doc_ownIndex := k\<rparr>)"





text \<open>What \<open>fetchCSSRulesFromUrl\<close> returns for an address.\<close>

definition fetchedRules :: "state \<Rightarrow> string \<Rightarrow> css_rule list" where
  "fetchedRules st h =
     (if h \<in> set (doc_links st) \<and> doc_head st
      then (case net st h of None \<Rightarrow> [] | Some rules \<Rightarrow> rules) else [])"



section \<open>Pages used as examples\<close>

definition blankPage :: state where
  "blankPage =
     \<lparr> doc_head = True, doc_links = [], doc_pageSheets = [], doc_override = None,
       doc_ownIndex = 0, doc_headIndex = 0, doc_elements = [], net = (\<lambda>u. None), fetches = [], requestedCssFiles = {},
       lastStyleSheets = {}, runCount = 0, console = [] \<rparr>"

definition ruleA :: "string \<Rightarrow> css_rule" where
  "ruleA ff = \<lparr> rule_selectorText = Some ''.a'', rule_fontFamily = Some ff,
               rule_cssText = ''.a { font-family: '' @ ff @ ''; }'' \<rparr>"

definition pageSheet :: "css_rule list \<Rightarrow> stylesheet" where
  "pageSheet rs = \<lparr> ownerNode = Some \<lparr>node_id = [], node_rel = []\<rparr>, mediaText = [],
                   href = None, cssRules = Some rs \<rparr>"

definition ruleFoo :: fontFamilyRule where
  "ruleFoo = \<lparr>selectorText = ''.a'', fontFamily = ''Foo''\<rparr>"

definition ruleBar :: fontFamilyRule where
  "ruleBar = \<lparr>selectorText = ''.a'', fontFamily = ''Bar''\<rparr>"

text \<open>The element left by a first update with \<open>.a { font-family: Foo }\<close>.\<close>

definition tagFoo :: style_tag where
  "tagFoo = \<lparr> tag_id = extentionStyleTagId, textContent = overrideText ruleFoo @ newline,
              sheet = Some [overrideRule ruleFoo] \<rparr>"

definition pageFoo :: state where
  "pageFoo = blankPage\<lparr>doc_override := Some tagFoo\<rparr>"

definition headlessPage :: state where
  "headlessPage = blankPage\<lparr>doc_head := False, doc_override := Some tagFoo\<rparr>"

definition corsSheet :: "string \<Rightarrow> stylesheet" where
  "corsSheet h = \<lparr> ownerNode = Some \<lparr>node_id = [], node_rel = ''stylesheet''\<rparr>, mediaText = [],
                    href = Some h, cssRules = None \<rparr>"

definition cdnUrl :: string where
  "cdnUrl = ''https://cdn.example/site.css''"

text \<open>A page with two style elements in its head.\<close>

definition twoSheets :: state where
  "twoSheets = blankPage\<lparr>doc_pageSheets := [pageSheet [ruleA ''Foo''], pageSheet [ruleA ''Bar'']],
       doc_headIndex := 2\<rparr>"





text \<open>
  The browser's answer for an attribute that holds one \<open>font-family\<close> declaration: the
  declaration with the value and \<open>!important\<close>.
\<close>

definition oneDeclarationAfter :: "string \<Rightarrow> string \<Rightarrow> string" where
  "oneDeclarationAfter s v = ''font-family: '' @ v @ '' !important;''"

definition arialElement :: element where
  "arialElement = \<lparr> style_attr = Some ''font-family: Arial'', setProperty_calls = [],
       style_after = oneDeclarationAfter \<rparr>"

definition gatingPage :: state where
  "gatingPage = twoSheets\<lparr>doc_elements := [arialElement]\<rparr>"

definition divNode :: added_node where
  "divNode = \<lparr> added_id = [], nodeName = ''DIV'', added_rel = [], added_as = [],
                added_href = [], added_textContent = ''hello'' \<rparr>"

definition linkNode :: added_node where
  "linkNode = \<lparr> added_id = [], nodeName = ''LINK'', added_rel = ''stylesheet'', added_as = [],
                 added_href = cdnUrl, added_textContent = [] \<rparr>"

text \<open>The extension's own style element, as the observer sees it after an update.\<close>

definition ownNode :: added_node where
  "ownNode = \<lparr> added_id = extentionStyleTagId, nodeName = ''STYLE'', added_rel = [], added_as = [],
                added_href = [], added_textContent = overrideText ruleFoo @ newline \<rparr>"

definition arialPreserved :: element where
  "arialPreserved = \<lparr> style_attr = Some ''font-family: Arial !important;'',
       setProperty_calls = [(''font-family'', ''Arial'', ''important'')],
       style_after = oneDeclarationAfter \<rparr>"


text \<open>
  A baseline rule as a browser reads it back: the text is the browser's, with double
  quotes, not the text that was written.
\<close>

definition readBackRule :: css_rule where
  "readBackRule =
     \<lparr> rule_selectorText = Some ''.a'',
       rule_fontFamily = Some ([CHR 0x22] @ replacementFontName @ [CHR 0x22] @ '', Foo''),
       rule_cssText = ''.a { font-family: '' @ [CHR 0x22] @ replacementFontName @ [CHR 0x22]
         @ '', Foo !important; }'' \<rparr>"

definition tagReadBack :: style_tag where
  "tagReadBack = \<lparr> tag_id = extentionStyleTagId, textContent = rule_cssText readBackRule @ newline,
       sheet = Some [readBackRule] \<rparr>"

definition pageReadBack :: state where
  "pageReadBack = blankPage\<lparr>doc_override := Some tagReadBack\<rparr>"




section \<open>The fallback fetch as two halves\<close>

text \<open>
  \<open>updateFontFamilyRules\<close> is an \<open>async\<close> function: at
  \<open>await fetchCSSRulesFromUrl(sheet.href)\<close> the pass is suspended, and other callbacks of
  the observer run before it resumes. \<open>fetch_request\<close> is the part of
  \<open>fetchCSSRulesFromUrl\<close> that runs before the suspension (it issues the request);
  \<open>fetch_response\<close> is the part that runs when the response is there.
\<close>

definition fetch_request :: "string \<Rightarrow> state \<Rightarrow> bool \<times> state" where
  "fetch_request styleHref st =
     (let st1 = log (FetchingFrom styleHref) st in
      if styleHref \<notin> set (doc_links st1) then (False, logError (PreloadLinkNotFound styleHref) st1)
      else (True, st1\<lparr>fetches := fetches st1 @ [styleHref]\<rparr>))"

definition fetch_response :: "string \<Rightarrow> bool \<Rightarrow> state \<Rightarrow> css_rule list \<times> state" where
  "fetch_response styleHref pending st =
     (if \<not> pending then ([], st)
      else (case net st styleHref of
          None \<Rightarrow> ([], logError ErrorFetchingCSS st)
        | Some rules \<Rightarrow>
            if \<not> doc_head st then ([], logError ErrorFetchingCSS st) else (rules, st)))"

text \<open>What a suspended iteration of the loop holds: the address, whether a request is
  pending, and the sheet counter.\<close>

datatype suspended = Suspended string bool nat

text \<open>
  The iteration up to the \<open>await\<close>: \<open>Inl\<close> when it ends without reaching it, \<open>Inr\<close>
  when it is suspended there. The test \<open>requestedCssFiles.has(sheet.href)\<close> is in this
  half; \<open>requestedCssFiles.add(sheet.href)\<close> is in the other.
\<close>

definition processSheet_begin ::
  "stylesheet \<Rightarrow> nat \<Rightarrow> state \<Rightarrow> ((error \<times> state) + state) + (suspended \<times> state)" where
  "processSheet_begin sh sheetCount st =
     (let st1 = log (ProcessingSheet sheetCount (length (styleSheets st))) st in
      case ownerNode sh of
        None \<Rightarrow> Inl (Inl (TypeError, st1))
      | Some owner \<Rightarrow>
          if node_id owner = extentionStyleTagId then Inl (Inr st1)
          else if mediaText sh \<in> set sheetMediaBlacklist then Inl (Inr st1)
          else (case cssRules sh of
              Some rules \<Rightarrow> Inl (Inr (collectAndUpdate rules sheetCount st1))
            | None \<Rightarrow>
                (case href sh of
                   None \<Rightarrow> Inl (Inr st1)
                 | Some h \<Rightarrow>
                     if h = [] \<or> node_rel owner \<noteq> ''stylesheet'' \<or> h \<in> requestedCssFiles st1
                     then Inl (Inr st1)
                     else (case fetch_request h st1 of
                         (pending, st2) \<Rightarrow> Inr (Suspended h pending sheetCount, st2)))))"

definition processSheet_resume :: "suspended \<Rightarrow> state \<Rightarrow> state" where
  "processSheet_resume k st =
     (case k of Suspended h pending sheetCount \<Rightarrow>
        (case fetch_response h pending st of
           (rules, st2) \<Rightarrow>
             (let st3 = st2\<lparr>requestedCssFiles := insert h (requestedCssFiles st2)\<rparr>;
                  st4 = log (FetchedCSS (length rules) sheetCount (length (styleSheets st3))) st3
              in collectAndUpdate rules sheetCount st4)))"

text \<open>
  Two passes that overlap on one sheet: the second pass visits the sheet while the first
  is suspended at its \<open>await\<close>; then the first resumes, then the second. \<open>None\<close> when
  one of the visits ends without suspension.
\<close>

definition overlappingVisits :: "stylesheet \<Rightarrow> state \<Rightarrow> state option" where
  "overlappingVisits sh st =
     (case processSheet_begin sh 1 st of
        Inl r \<Rightarrow> None
      | Inr (k1, st1) \<Rightarrow>
          (case processSheet_begin sh 1 st1 of
             Inl r \<Rightarrow> None
           | Inr (k2, st2) \<Rightarrow> Some (processSheet_resume k2 (processSheet_resume k1 st2))))"

text \<open>Two visits of the sheet one after the other, each run to its end.\<close>

definition consecutiveVisits :: "stylesheet \<Rightarrow> state \<Rightarrow> state" where
  "consecutiveVisits sh st = afterPass (processSheet sh 1 (afterPass (processSheet sh 1 st)))"

text \<open>The requests issued so far are all recorded, and none was issued twice.\<close>

definition fetchLedger :: "state \<Rightarrow> bool" where
  "fetchLedger st = (distinct (fetches st) \<and> set (fetches st) \<subseteq> requestedCssFiles st)"

text \<open>From \<open>st\<close> to \<open>st'\<close>, requests were issued only for addresses not recorded in \<open>st\<close>,
  each once, and all are recorded in \<open>st'\<close>.\<close>

definition fetchStep :: "state \<Rightarrow> state \<Rightarrow> bool" where
  "fetchStep st st' =
     (\<exists>f. fetches st' = fetches st @ f \<and> distinct f \<and> set f \<inter> requestedCssFiles st = {}
        \<and> set f \<subseteq> requestedCssFiles st' \<and> requestedCssFiles st \<subseteq> requestedCssFiles st')"

text \<open>A page with one cross-origin stylesheet whose link element is present.\<close>

definition corsPage :: state where
  "corsPage = blankPage\<lparr> doc_links := [cdnUrl], doc_pageSheets := [corsSheet cdnUrl],
       net := (\<lambda>u. if u = cdnUrl then Some [ruleA ''Foo''] else None) \<rparr>"

text \<open>The same page later, the address recorded; the link element is still there.\<close>

definition corsRecorded :: state where
  "corsRecorded = corsPage\<lparr>requestedCssFiles := {cdnUrl}\<rparr>"

section \<open>Properties of the Override Stylesheet Builder\<close>

lemma foldl_append_concat:
  "foldl (\<lambda>t x. t @ f x) acc xs = acc @ concat (map f xs)"
  by (induction xs arbitrary: acc) simp_all

lemma set_selectorTexts:
  "set (selectorTexts rs) = {s. \<exists>r \<in> set rs. rule_selectorText r = Some s}"
  by (induction rs) (auto split: option.splits)

lemma inOldRules_iff:
  "inOldRules oldRules r \<longleftrightarrow> (\<exists>old \<in> set oldRules. rule_selectorText old = Some (selectorText r))"
  by (simp add: inOldRules_def list_ex_iff)

lemma inOldRules_selectorTexts:
  "inOldRules oldRules r \<longleftrightarrow> selectorText r \<in> set (selectorTexts oldRules)"
  by (simp add: inOldRules_iff set_selectorTexts)

lemma selectorTexts_append:
  "selectorTexts (xs @ ys) = selectorTexts xs @ selectorTexts ys"
  by (induction xs) (auto split: option.splits)

lemma selectorTexts_overrideRule:
  "selectorTexts (map overrideRule rs) = map selectorText rs"
  by (induction rs) (simp_all add: overrideRule_def)

lemma createNewStyleTag_None:
  "createNewStyleTag batch None = Inr (mergedTag [] batch)"
  by (simp add: createNewStyleTag_def mergedTag_def Let_def foldl_append_concat)

lemma createNewStyleTag_Some:
  "sheet e = Some oldRules \<Longrightarrow> createNewStyleTag batch (Some e) = Inr (mergedTag oldRules batch)"
  by (simp add: createNewStyleTag_def mergedTag_def Let_def foldl_append_concat)

lemma createNewStyleTag_throws:
  "sheet e = None \<Longrightarrow> createNewStyleTag batch (Some e) = Inl TypeError"
  by (simp add: createNewStyleTag_def)

lemma mergedTag_distinct:
  assumes "distinct (selectorTexts oldRules)" and "distinct (map selectorText batch)"
  shows "distinct (selectorTexts (oldRules @ map overrideRule (filter (\<lambda>r. \<not> inOldRules oldRules r) batch)))"
  using assms
  by (auto simp: selectorTexts_append selectorTexts_overrideRule distinct_map_filter
      inOldRules_selectorTexts)

lemma updateStyleTag_eq:
  assumes "case doc_override st of None \<Rightarrow> oldRules = [] | Some e \<Rightarrow> sheet e = Some oldRules"
  shows "updateStyleTag batch st =
     Inr ((if doc_head st
          then (log (UpdatingStyleTag (length (textContent (mergedTag oldRules batch)))) st)
             \<lparr>doc_override := Some (mergedTag oldRules batch), doc_ownIndex := doc_headIndex st\<rparr>
          else (log (UpdatingStyleTag (length (textContent (mergedTag oldRules batch)))) st)
             \<lparr>doc_override := None\<rparr>))"
proof (cases "doc_override st")
  case None
  with assms show ?thesis
    by (auto simp: updateStyleTag_def createNewStyleTag_None Let_def log_def)
next
  case (Some e)
  with assms show ?thesis
    by (auto simp: updateStyleTag_def createNewStyleTag_Some Let_def log_def)
qed

lemma updateStyleTag_throws:
  "doc_override st = Some e \<Longrightarrow> sheet e = None \<Longrightarrow> updateStyleTag batch st = Inl TypeError"
  by (simp add: updateStyleTag_def createNewStyleTag_throws)

lemma updateStyleTag_cases:
  assumes "updateStyleTag batch st = Inr st'"
  obtains oldRules where
    "case doc_override st of None \<Rightarrow> oldRules = [] | Some e \<Rightarrow> sheet e = Some oldRules"
    "st' = (if doc_head st
          then (log (UpdatingStyleTag (length (textContent (mergedTag oldRules batch)))) st)
             \<lparr>doc_override := Some (mergedTag oldRules batch), doc_ownIndex := doc_headIndex st\<rparr>
          else (log (UpdatingStyleTag (length (textContent (mergedTag oldRules batch)))) st)
             \<lparr>doc_override := None\<rparr>)"
proof (cases "doc_override st")
  case None
  then have "case doc_override st of None \<Rightarrow> [] = [] | Some e \<Rightarrow> sheet e = Some []" by simp
  from updateStyleTag_eq[OF this, of batch] assms that[OF this] show ?thesis by simp
next
  case (Some e)
  show ?thesis
  proof (cases "sheet e")
    case None
    with Some assms show ?thesis
      by (simp add: updateStyleTag_throws)
  next
    case (Some oldRules)
    with \<open>doc_override st = Some e\<close>
    have "case doc_override st of None \<Rightarrow> oldRules = [] | Some e \<Rightarrow> sheet e = Some oldRules" by simp
    from updateStyleTag_eq[OF this, of batch] assms that[OF this] show ?thesis by simp
  qed
qed

text \<open>
  C1, as amended. The builder removes from the batch the rules whose selector text a
  baseline entry has, and nothing else: when neither the baseline nor the batch holds two
  entries with the same selector text, the Override Stylesheet after the update holds
  none either. Two rules of one batch with the same selector text are both written.
\<close>

theorem builder_no_duplicate_selectors:
  assumes "updateStyleTag batch st = Inr st'"
    and "distinct (overrideSelectors st)"
    and "distinct (map selectorText batch)"
  shows "distinct (overrideSelectors st')"
proof -
  from assms(1) obtain oldRules where
    old: "case doc_override st of None \<Rightarrow> oldRules = [] | Some e \<Rightarrow> sheet e = Some oldRules"
    and st': "st' = (if doc_head st
          then (log (UpdatingStyleTag (length (textContent (mergedTag oldRules batch)))) st)
             \<lparr>doc_override := Some (mergedTag oldRules batch), doc_ownIndex := doc_headIndex st\<rparr>
          else (log (UpdatingStyleTag (length (textContent (mergedTag oldRules batch)))) st)
             \<lparr>doc_override := None\<rparr>)"
    by (rule updateStyleTag_cases)
  from old assms(2) have "distinct (selectorTexts oldRules)"
    by (auto simp: overrideSelectors_def split: option.splits)
  from mergedTag_distinct[OF this assms(3)] st' show ?thesis
    by (simp add: overrideSelectors_def mergedTag_def)
qed

theorem builder_no_duplicate_selectors_witness:
  "updateStyleTag [ruleBar] pageFoo
     = Inr ((log (UpdatingStyleTag 61) pageFoo)\<lparr>doc_override := Some tagFoo\<rparr>)
   \<and> distinct (overrideSelectors pageFoo) \<and> distinct (map selectorText [ruleBar])
   \<and> distinct (overrideSelectors ((log (UpdatingStyleTag 61) pageFoo)\<lparr>doc_override := Some tagFoo\<rparr>))"
proof -
  have 1: "updateStyleTag [ruleBar] pageFoo
     = Inr ((log (UpdatingStyleTag 61) pageFoo)\<lparr>doc_override := Some tagFoo\<rparr>)"
    by (simp add: updateStyleTag_def createNewStyleTag_def pageFoo_def tagFoo_def blankPage_def
        Let_def log_def inOldRules_def overrideRule_def ruleFoo_def ruleBar_def overrideText_def
        newline_def replacementFontName_def)
  have 2: "distinct (overrideSelectors pageFoo)"
    by (simp add: overrideSelectors_def pageFoo_def tagFoo_def overrideRule_def)
  have 3: "distinct (map selectorText [ruleBar])" by simp
  from builder_no_duplicate_selectors[OF 1 2 3] 1 2 3 show ?thesis by simp
qed

text \<open>
  C1 as stated fails: with no baseline, a batch holding \<open>.a\<close> twice gives an Override
  Stylesheet with two entries for \<open>.a\<close>.
\<close>

theorem builder_duplicate_selectors_counterexample:
  "(case updateStyleTag [ruleFoo, ruleBar] blankPage of
      Inl err \<Rightarrow> False
    | Inr st' \<Rightarrow> overrideSelectors st' = [''.a'', ''.a''])"
  by (simp add: updateStyleTag_def createNewStyleTag_def ruleFoo_def ruleBar_def blankPage_def
      Let_def log_def inOldRules_def overrideSelectors_def overrideRule_def)

text \<open>
  C3, as amended. With an existing Override Stylesheet as baseline, the element that the
  builder makes holds every baseline rule first, verbatim and in order, followed by the
  rules of the batch whose selector text no baseline entry has; the other rules of the
  batch are dropped. That element becomes the Override Stylesheet when the document has a
  head; without a head the update leaves the document without Override Stylesheet, the
  baseline removed with it.
\<close>

theorem builder_keeps_baseline:
  assumes "sheet e = Some oldRules"
  shows "createNewStyleTag batch (Some e) =
      Inr \<lparr> tag_id = extentionStyleTagId,
            textContent = concat (map (\<lambda>r. rule_cssText r @ newline) oldRules)
              @ concat (map (\<lambda>r. overrideText r @ newline)
                  (filter (\<lambda>r. \<not> (\<exists>old \<in> set oldRules. rule_selectorText old = Some (selectorText r))) batch)),
            sheet = Some (oldRules @ map overrideRule
                  (filter (\<lambda>r. \<not> (\<exists>old \<in> set oldRules. rule_selectorText old = Some (selectorText r))) batch)) \<rparr>
    \<and> (doc_override st = Some e \<longrightarrow>
         (\<exists>st'. updateStyleTag batch st = Inr st' \<and>
            doc_override st' =
              (if doc_head st
               then Some \<lparr> tag_id = extentionStyleTagId,
                  textContent = concat (map (\<lambda>r. rule_cssText r @ newline) oldRules)
                    @ concat (map (\<lambda>r. overrideText r @ newline)
                        (filter (\<lambda>r. \<not> (\<exists>old \<in> set oldRules. rule_selectorText old = Some (selectorText r))) batch)),
                  sheet = Some (oldRules @ map overrideRule
                        (filter (\<lambda>r. \<not> (\<exists>old \<in> set oldRules. rule_selectorText old = Some (selectorText r))) batch)) \<rparr>
               else None)))"
  using assms
  by (auto simp: updateStyleTag_def createNewStyleTag_Some mergedTag_def inOldRules_iff Let_def log_def)

theorem builder_keeps_baseline_witness:
  "sheet tagReadBack = Some [readBackRule]
   \<and> createNewStyleTag [ruleBar] (Some tagReadBack) = Inr tagReadBack
   \<and> doc_override pageReadBack = Some tagReadBack \<and> doc_head pageReadBack
   \<and> (\<exists>st'. updateStyleTag [ruleBar] pageReadBack = Inr st' \<and> doc_override st' = Some tagReadBack)"
proof -
  have 1: "sheet tagReadBack = Some [readBackRule]" by (simp add: tagReadBack_def)
  have 2: "doc_override pageReadBack = Some tagReadBack \<and> doc_head pageReadBack"
    by (simp add: pageReadBack_def blankPage_def)
  have 3: "rule_selectorText readBackRule = Some (selectorText ruleBar)"
    by (simp add: readBackRule_def ruleBar_def)
  from builder_keeps_baseline[OF 1, of "[ruleBar]" pageReadBack] 1 2 3 show ?thesis
    by (simp add: tagReadBack_def)
qed

text \<open>
  C3 as stated fails for an update without document head: the baseline holds the rule
  for \<open>.a\<close> collected with \<open>Foo\<close>, the batch holds \<open>.a\<close> with \<open>Bar\<close>, and after the update no
  entry of the baseline is left.
\<close>

theorem baseline_lost_without_head_counterexample:
  "overrideSelectors headlessPage = [''.a'']
   \<and> (case updateStyleTag [ruleBar] headlessPage of
        Inl err \<Rightarrow> False
      | Inr st' \<Rightarrow> overrideSelectors st' = [] \<and> doc_override st' = None)"
  by (simp add: updateStyleTag_def createNewStyleTag_def headlessPage_def blankPage_def
      tagFoo_def Let_def log_def overrideSelectors_def overrideRule_def ruleFoo_def ruleBar_def
      inOldRules_def)

text \<open>
  C5, as amended. Without a document head the update raises nothing (the element
  carrying the id, if any, having a rule list) and appends nothing; the existing element has
  been removed before the head is looked at, so that the document is left without
  Override Stylesheet.
\<close>

theorem headless_update_removes:
  assumes "\<not> doc_head st"
    and "overrideReadable st"
  shows "\<exists>n. updateStyleTag batch st = Inr ((log (UpdatingStyleTag n) st)\<lparr>doc_override := None\<rparr>)"
proof -
  obtain oldRules where
    "case doc_override st of None \<Rightarrow> oldRules = [] | Some e \<Rightarrow> sheet e = Some oldRules"
    using assms(2) by (cases "doc_override st") (auto simp: overrideReadable_def)
  from updateStyleTag_eq[OF this, of batch] assms(1) show ?thesis by auto
qed

theorem headless_update_removes_witness:
  "\<not> doc_head headlessPage
   \<and> overrideReadable headlessPage
   \<and> (\<exists>n. updateStyleTag [ruleBar] headlessPage
          = Inr ((log (UpdatingStyleTag n) headlessPage)\<lparr>doc_override := None\<rparr>))"
proof -
  have 1: "\<not> doc_head headlessPage" by (simp add: headlessPage_def blankPage_def)
  have 2: "overrideReadable headlessPage"
    by (simp add: overrideReadable_def headlessPage_def blankPage_def tagFoo_def)
  from headless_update_removes[OF 1 2, of "[ruleBar]"] 1 2 show ?thesis by blast
qed

text \<open>
  C5 as stated fails: an Override Stylesheet that was attached before a headless
  update is not attached after it.
\<close>

theorem headless_update_counterexample:
  "doc_override headlessPage = Some tagFoo \<and> \<not> doc_head headlessPage
   \<and> (case updateStyleTag [] headlessPage of
        Inl err \<Rightarrow> False
      | Inr st' \<Rightarrow> doc_override st' = None)"
  by (simp add: updateStyleTag_def createNewStyleTag_def headlessPage_def blankPage_def
      tagFoo_def Let_def log_def)

section \<open>Properties of the Rule Extractor and the Collector\<close>

lemma emittedRules_Cons:
  "emittedRules (rule # rest) =
     (case emits rule of None \<Rightarrow> emittedRules rest | Some r \<Rightarrow> r # emittedRules rest)"
  by (simp add: emittedRules_def map_filter_def split: option.splits)

lemma collectRules_step:
  "collectRules (rule # rest) acc st =
     (case emits rule of
        None \<Rightarrow> collectRules rest acc st
      | Some r \<Rightarrow> collectRules rest (acc @ [r]) (log (AddedRuleFor (selectorText r) (length acc)) st))"
  by (auto simp: emits_def split: option.splits)

lemma collectRules_full:
  "collectRules rules acc st =
     (acc @ emittedRules rules,
      st\<lparr>console := console st @ addedLines (runCount st) (length acc) (emittedRules rules)\<rparr>)"
proof (induction rules arbitrary: acc st)
  case Nil
  show ?case by (simp add: emittedRules_def map_filter_def)
next
  case (Cons rule rest)
  show ?case
    by (cases "emits rule")
      (simp_all only: collectRules_step emittedRules_Cons Cons option.case, simp_all add: log_def)
qed

lemma collectRules_eq:
  "collectRules rules [] st =
     (emittedRules rules,
      st\<lparr>console := console st @ addedLines (runCount st) 0 (emittedRules rules)\<rparr>)"
  by (simp add: collectRules_full)

text \<open>What the builder and the collector leave untouched.\<close>

lemma updateStyleTag_frame:
  assumes "updateStyleTag batch st = Inr st'"
  shows "fetches st' = fetches st" "requestedCssFiles st' = requestedCssFiles st"
    "doc_head st' = doc_head st" "doc_links st' = doc_links st" "net st' = net st"
    "doc_pageSheets st' = doc_pageSheets st" "runCount st' = runCount st"
    "lastStyleSheets st' = lastStyleSheets st" "doc_elements st' = doc_elements st"
    "doc_headIndex st' = doc_headIndex st"
  using assms by (auto elim!: updateStyleTag_cases simp: log_def split: if_splits)

lemma collectAndUpdate_frame:
  "fetches (collectAndUpdate rules i st) = fetches st"
  "requestedCssFiles (collectAndUpdate rules i st) = requestedCssFiles st"
  "doc_head (collectAndUpdate rules i st) = doc_head st"
  "doc_links (collectAndUpdate rules i st) = doc_links st"
  "net (collectAndUpdate rules i st) = net st"
  "doc_pageSheets (collectAndUpdate rules i st) = doc_pageSheets st"
  "runCount (collectAndUpdate rules i st) = runCount st"
  "lastStyleSheets (collectAndUpdate rules i st) = lastStyleSheets st"
  "doc_elements (collectAndUpdate rules i st) = doc_elements st"
  "doc_headIndex (collectAndUpdate rules i st) = doc_headIndex st"
proof -
  show "fetches (collectAndUpdate rules i st) = fetches st"
    "requestedCssFiles (collectAndUpdate rules i st) = requestedCssFiles st"
    "doc_head (collectAndUpdate rules i st) = doc_head st"
    "doc_links (collectAndUpdate rules i st) = doc_links st"
    "net (collectAndUpdate rules i st) = net st"
    "doc_pageSheets (collectAndUpdate rules i st) = doc_pageSheets st"
    "runCount (collectAndUpdate rules i st) = runCount st"
    "lastStyleSheets (collectAndUpdate rules i st) = lastStyleSheets st"
    "doc_elements (collectAndUpdate rules i st) = doc_elements st"
    "doc_headIndex (collectAndUpdate rules i st) = doc_headIndex st"
    by (auto simp: collectAndUpdate_def collectRules_eq logError_def split: sum.splits
        dest: updateStyleTag_frame)
qed

lemma fetch_without_link:
  "h \<notin> set (doc_links st) \<Longrightarrow>
   fetchCSSRulesFromUrl h st = ([], logError (PreloadLinkNotFound h) (log (FetchingFrom h) st))"
  by (simp add: fetchCSSRulesFromUrl_def Let_def log_def)

lemma processSheet_requested:
  "inaccessibleLink sh h \<Longrightarrow> h \<in> requestedCssFiles st \<Longrightarrow>
   processSheet sh i st = Inr (log (ProcessingSheet i (length (styleSheets st))) st)"
  by (auto simp: inaccessibleLink_def processSheet_def Let_def log_def split: option.splits)

text \<open>
  C9. When no \<open>link\<close> element has the address as its \<open>href\<close>, \<open>fetchCSSRulesFromUrl\<close>
  returns the empty rule list and issues no request; the caller records the address all the
  same. In every later state that has the address recorded, with or without such a
  \<open>link\<close> element by then, the visit of the sheet only writes its line to the console: the
  address is not tried again.
\<close>

theorem missing_link_recorded_without_request:
  assumes "inaccessibleLink sh h"
    and "h \<notin> set (doc_links st)"
    and "h \<notin> requestedCssFiles st"
  shows "fst (fetchCSSRulesFromUrl h st) = []
    \<and> fetches (snd (fetchCSSRulesFromUrl h st)) = fetches st
    \<and> (\<exists>st'. processSheet sh i st = Inr st' \<and> fetches st' = fetches st
          \<and> h \<in> requestedCssFiles st')
    \<and> (\<forall>later j. h \<in> requestedCssFiles later \<longrightarrow>
          processSheet sh j later = Inr (log (ProcessingSheet j (length (styleSheets later))) later)
          \<and> fetches (log (ProcessingSheet j (length (styleSheets later))) later) = fetches later)"
proof -
  let ?st1 = "log (ProcessingSheet i (length (styleSheets st))) st"
  have l: "h \<notin> set (doc_links ?st1)" using assms(2) by (simp add: log_def)
  have f: "fetchCSSRulesFromUrl h st = ([], logError (PreloadLinkNotFound h) (log (FetchingFrom h) st))"
    using assms(2) by (rule fetch_without_link)
  let ?st2 = "logError (PreloadLinkNotFound h) (log (FetchingFrom h) ?st1)"
  let ?st3 = "?st2\<lparr>requestedCssFiles := insert h (requestedCssFiles ?st2)\<rparr>"
  let ?st4 = "log (FetchedCSS 0 i (length (styleSheets ?st3))) ?st3"
  have p: "processSheet sh i st = Inr (collectAndUpdate [] i ?st4)"
    using assms(1,3) fetch_without_link[OF l]
    by (auto simp: inaccessibleLink_def processSheet_def Let_def split: option.splits)
      (simp_all add: log_def)
  let ?st' = "collectAndUpdate [] i ?st4"
  have 1: "fetches ?st' = fetches st"
    by (simp add: collectAndUpdate_frame) (simp add: log_def logError_def)
  have 2: "h \<in> requestedCssFiles ?st'"
    by (simp add: collectAndUpdate_frame) (simp add: log_def logError_def)
  have 3: "processSheet sh j later = Inr (log (ProcessingSheet j (length (styleSheets later))) later)
      \<and> fetches (log (ProcessingSheet j (length (styleSheets later))) later) = fetches later"
    if "h \<in> requestedCssFiles later" for later j
    using processSheet_requested[OF assms(1) that, of j] by (simp add: log_def)
  have 4: "fst (fetchCSSRulesFromUrl h st) = []
    \<and> fetches (snd (fetchCSSRulesFromUrl h st)) = fetches st"
    using f by (simp add: log_def logError_def)
  from 4 p 1 2 3 show ?thesis by blast
qed

theorem missing_link_recorded_without_request_witness:
  "inaccessibleLink (corsSheet cdnUrl) cdnUrl
   \<and> cdnUrl \<notin> set (doc_links blankPage) \<and> cdnUrl \<notin> requestedCssFiles blankPage
   \<and> fst (fetchCSSRulesFromUrl cdnUrl blankPage) = []
   \<and> fetches (snd (fetchCSSRulesFromUrl cdnUrl blankPage)) = []
   \<and> (\<exists>st'. processSheet (corsSheet cdnUrl) 1 blankPage = Inr st' \<and> fetches st' = []
          \<and> cdnUrl \<in> requestedCssFiles st')
   \<and> cdnUrl \<in> requestedCssFiles corsRecorded \<and> cdnUrl \<in> set (doc_links corsRecorded)
   \<and> processSheet (corsSheet cdnUrl) 1 corsRecorded
        = Inr (log (ProcessingSheet 1 1) corsRecorded)
   \<and> fetches (log (ProcessingSheet 1 1) corsRecorded) = []"
proof -
  have 1: "inaccessibleLink (corsSheet cdnUrl) cdnUrl"
    by (simp add: inaccessibleLink_def corsSheet_def cdnUrl_def extentionStyleTagId_def
        sheetMediaBlacklist_def)
  have 2: "cdnUrl \<notin> set (doc_links blankPage)" by (simp add: blankPage_def)
  have 3: "cdnUrl \<notin> requestedCssFiles blankPage" by (simp add: blankPage_def)
  have 4: "fetches blankPage = []" by (simp add: blankPage_def)
  have 5: "cdnUrl \<in> requestedCssFiles corsRecorded \<and> cdnUrl \<in> set (doc_links corsRecorded)"
    by (simp add: corsRecorded_def corsPage_def)
  have 6: "length (styleSheets corsRecorded) = 1" "fetches corsRecorded = []"
    by (simp_all add: corsRecorded_def corsPage_def blankPage_def styleSheets_def ownSheets_def)
  from missing_link_recorded_without_request[OF 1 2 3, of 1] 1 2 3 4 5 6 show ?thesis
    by (simp add: log_def)
qed

section \<open>The loop over the stylesheets\<close>

lemma updateStyleTag_readable:
  assumes "overrideReadable st"
  shows "updateStyleTag batch st =
     Inr (st\<lparr>console := console st
             @ [Log (runCount st) (UpdatingStyleTag (length (textContent (mergedTag (oldRulesOf st) batch))))],
            doc_override := (if doc_head st then Some (mergedTag (oldRulesOf st) batch) else None),
            doc_ownIndex := (if doc_head st then doc_headIndex st else doc_ownIndex st)\<rparr>)"
proof -
  have "case doc_override st of None \<Rightarrow> oldRulesOf st = [] | Some e \<Rightarrow> sheet e = Some (oldRulesOf st)"
    using assms by (auto simp: overrideReadable_def oldRulesOf_def split: option.splits)
  from updateStyleTag_eq[OF this, of batch] show ?thesis by (simp add: log_def)
qed

lemma collectAndUpdate_readable:
  assumes "overrideReadable st"
  shows "collectAndUpdate rules i st =
      st\<lparr>console := console st @ addedLines (runCount st) 0 (emittedRules rules)
             @ [Log (runCount st) (UpdatingStyleTag
                  (length (textContent (mergedTag (oldRulesOf st) (emittedRules rules)))))],
         doc_override := (if doc_head st then Some (mergedTag (oldRulesOf st) (emittedRules rules)) else None),
         doc_ownIndex := (if doc_head st then doc_headIndex st else doc_ownIndex st)\<rparr>"
proof -
  let ?st1 = "st\<lparr>console := console st @ addedLines (runCount st) 0 (emittedRules rules)\<rparr>"
  have "overrideReadable ?st1" using assms by (simp add: overrideReadable_def)
  from updateStyleTag_readable[OF this, of "emittedRules rules"] show ?thesis
    by (simp add: collectAndUpdate_def collectRules_eq oldRulesOf_def)
qed

lemma collectAndUpdate_unreadable:
  assumes "\<not> overrideReadable st"
  shows "collectAndUpdate rules i st =
      st\<lparr>console := console st @ addedLines (runCount st) 0 (emittedRules rules)
             @ [LogError (runCount st) (ErrorRetrieving i (length (styleSheets st)))]\<rparr>"
proof -
  from assms obtain e where e: "doc_override st = Some e" "sheet e = None"
    by (auto simp: overrideReadable_def split: option.splits)
  let ?st1 = "st\<lparr>console := console st @ addedLines (runCount st) 0 (emittedRules rules)\<rparr>"
  have "updateStyleTag (emittedRules rules) ?st1 = Inl TypeError"
    using e by (intro updateStyleTag_throws[of _ e]) simp_all
  then show ?thesis
    by (simp add: collectAndUpdate_def collectRules_eq logError_def styleSheets_def ownSheets_def)
qed

text \<open>The branches of one iteration.\<close>

lemma reachesBuilder_iff:
  "reachesBuilder req sh \<longleftrightarrow> readableSheet sh \<or> (\<exists>h. inaccessibleLink sh h \<and> h \<notin> req)"
  by (auto simp: reachesBuilder_def readableSheet_def inaccessibleLink_def split: option.splits)

lemma readable_not_inaccessible:
  "readableSheet sh \<Longrightarrow> \<not> inaccessibleLink sh h"
  by (auto simp: readableSheet_def inaccessibleLink_def split: option.splits)

lemma processSheet_orphan:
  "ownerNode sh = None \<Longrightarrow>
   processSheet sh i st = Inl (TypeError, log (ProcessingSheet i (length (styleSheets st))) st)"
  by (simp add: processSheet_def Let_def)

lemma processSheet_skip:
  "hasOwner sh \<Longrightarrow> \<not> reachesBuilder (requestedCssFiles st) sh \<Longrightarrow>
   processSheet sh i st = Inr (log (ProcessingSheet i (length (styleSheets st))) st)"
  by (auto simp: hasOwner_def reachesBuilder_def processSheet_def Let_def log_def
      split: option.splits)

lemma processSheet_direct:
  "readableSheet sh \<Longrightarrow>
   processSheet sh i st =
     Inr (collectAndUpdate (the (cssRules sh)) i (log (ProcessingSheet i (length (styleSheets st))) st))"
  by (auto simp: readableSheet_def processSheet_def Let_def split: option.splits)

lemma processSheet_fetched:
  "inaccessibleLink sh h \<Longrightarrow> h \<notin> requestedCssFiles st \<Longrightarrow>
   processSheet sh i st =
     (case fetchCSSRulesFromUrl h (log (ProcessingSheet i (length (styleSheets st))) st) of
        (rules, st2) \<Rightarrow>
          Inr (collectAndUpdate rules i
            (log (FetchedCSS (length rules) i
               (length (styleSheets (st2\<lparr>requestedCssFiles := insert h (requestedCssFiles st2)\<rparr>))))
               (st2\<lparr>requestedCssFiles := insert h (requestedCssFiles st2)\<rparr>))))"
  by (auto simp: inaccessibleLink_def processSheet_def Let_def log_def split: option.splits)

lemma requestedAfter_simps:
  "\<not> reachesBuilder req sh \<Longrightarrow> requestedAfter req sh = req"
  "readableSheet sh \<Longrightarrow> requestedAfter req sh = req"
  "inaccessibleLink sh h \<Longrightarrow> h \<notin> req \<Longrightarrow> requestedAfter req sh = insert h req"
  by (auto simp: requestedAfter_def reachesBuilder_def readableSheet_def inaccessibleLink_def
      split: option.splits)

text \<open>What a fallback fetch changes.\<close>

lemma fetch_effect:
  assumes "fetchCSSRulesFromUrl h st = (rules, st2)"
  shows "\<exists>c. console st2 = console st @ c"
    "doc_override st2 = doc_override st" "runCount st2 = runCount st"
    "requestedCssFiles st2 = requestedCssFiles st" "doc_pageSheets st2 = doc_pageSheets st"
    "doc_head st2 = doc_head st" "doc_links st2 = doc_links st" "net st2 = net st"
    "lastStyleSheets st2 = lastStyleSheets st" "doc_elements st2 = doc_elements st"
    "doc_ownIndex st2 = doc_ownIndex st" "doc_headIndex st2 = doc_headIndex st"
    "rules = fetchedRules st h"
  using assms
  by (auto simp: fetchedRules_def fetchCSSRulesFromUrl_def Let_def log_def logError_def
      split: if_splits option.splits)

text \<open>One iteration, for a sheet with an owner node.\<close>

lemma processSheet_step:
  assumes "hasOwner sh"
  shows "\<exists>st1 c. processSheet sh i st = Inr st1 \<and> console st1 = console st @ c
     \<and> (\<exists>n. Log (runCount st) (ProcessingSheet i n) \<in> set c)
     \<and> runCount st1 = runCount st
     \<and> doc_pageSheets st1 = doc_pageSheets st
     \<and> overrideReadable st1 = overrideReadable st
     \<and> requestedCssFiles st1 = requestedAfter (requestedCssFiles st) sh
     \<and> (if \<not> overrideReadable st \<and> readableSheet sh
         then \<exists>n. LogError (runCount st) (ErrorRetrieving i n) \<in> set c else True)"
proof -
  let ?st1 = "log (ProcessingSheet i (length (styleSheets st))) st"
  have r1: "overrideReadable ?st1 = overrideReadable st"
    by (simp add: overrideReadable_def log_def)
  consider (skip) "\<not> reachesBuilder (requestedCssFiles st) sh"
    | (direct) "readableSheet sh"
    | (fetched) h where "inaccessibleLink sh h" "h \<notin> requestedCssFiles st"
    by (auto simp: reachesBuilder_iff)
  then show ?thesis
  proof cases
    case skip
    then have nr: "\<not> readableSheet sh" by (simp add: reachesBuilder_iff)
    show ?thesis
      unfolding processSheet_skip[OF assms skip] requestedAfter_simps(1)[OF skip]
      using skip nr by (auto simp: log_def overrideReadable_def)
  next
    case direct
    then have rb: "reachesBuilder (requestedCssFiles st) sh" by (simp add: reachesBuilder_iff)
    show ?thesis
    proof (cases "overrideReadable st")
      case True
      with r1 have "overrideReadable ?st1" by simp
      from collectAndUpdate_readable[OF this, of "the (cssRules sh)" i] direct True rb show ?thesis
        unfolding processSheet_direct[OF direct] requestedAfter_simps(2)[OF direct]
        by (auto simp: log_def overrideReadable_def mergedTag_def)
    next
      case False
      with r1 have "\<not> overrideReadable ?st1" by simp
      from collectAndUpdate_unreadable[OF this, of "the (cssRules sh)" i] direct False show ?thesis
        unfolding processSheet_direct[OF direct] requestedAfter_simps(2)[OF direct]
        by (auto simp: log_def overrideReadable_def)
    qed
  next
    case (fetched h)
    then have rb: "reachesBuilder (requestedCssFiles st) sh" by (auto simp: reachesBuilder_iff)
    from fetched have nr: "\<not> readableSheet sh" using readable_not_inaccessible by blast
    obtain rules st2 where f: "fetchCSSRulesFromUrl h ?st1 = (rules, st2)"
      by (cases "fetchCSSRulesFromUrl h ?st1")
    let ?st3 = "st2\<lparr>requestedCssFiles := insert h (requestedCssFiles st2)\<rparr>"
    let ?st4 = "log (FetchedCSS (length rules) i (length (styleSheets ?st3))) ?st3"
    from fetch_effect[OF f] obtain c2 where st2: "console st2 = console ?st1 @ c2"
      "doc_override st2 = doc_override st" "runCount st2 = runCount st"
      "requestedCssFiles st2 = requestedCssFiles st" "doc_pageSheets st2 = doc_pageSheets st"
      by (auto simp: log_def)
    have r4: "overrideReadable ?st4 = overrideReadable st"
      using st2 by (simp add: overrideReadable_def log_def)
    have p: "processSheet sh i st = Inr (collectAndUpdate rules i ?st4)"
      using processSheet_fetched[OF fetched, of i] f by simp
    show ?thesis
    proof (cases "overrideReadable st")
      case True
      with r4 have "overrideReadable ?st4" by simp
      from collectAndUpdate_readable[OF this, of rules i] True st2 rb nr show ?thesis
        unfolding p requestedAfter_simps(3)[OF fetched]
        by (auto simp: log_def overrideReadable_def mergedTag_def)
    next
      case False
      with r4 have "\<not> overrideReadable ?st4" by simp
      from collectAndUpdate_unreadable[OF this, of rules i] False st2 nr show ?thesis
        unfolding p requestedAfter_simps(3)[OF fetched]
        by (auto simp: log_def overrideReadable_def)
    qed
  qed
qed
section \<open>What a scan pass leaves untouched\<close>

lemma pageOf_log [simp]: "pageOf (log m st) = pageOf st" "pageOf (logError m st) = pageOf st"
  by (simp_all add: pageOf_def log_def logError_def)

lemma collectAndUpdate_pageOf: "pageOf (collectAndUpdate rules i st) = pageOf st"
  by (simp add: pageOf_def collectAndUpdate_frame)

lemma fetch_pageOf:
  "fetchCSSRulesFromUrl h st = (rules, st2) \<Longrightarrow> pageOf st2 = pageOf st"
  by (simp add: pageOf_def fetch_effect)

lemma processSheet_pageOf: "pageOf (afterPass (processSheet sh i st)) = pageOf st"
proof (cases "hasOwner sh")
  case False
  then show ?thesis by (simp add: hasOwner_def processSheet_orphan afterPass_def)
next
  case True
  consider (skip) "\<not> reachesBuilder (requestedCssFiles st) sh"
    | (direct) "readableSheet sh"
    | (fetched) h where "inaccessibleLink sh h" "h \<notin> requestedCssFiles st"
    by (auto simp: reachesBuilder_iff)
  then show ?thesis
  proof cases
    case skip
    show ?thesis by (simp add: processSheet_skip[OF True skip] afterPass_def)
  next
    case direct
    show ?thesis by (simp add: processSheet_direct[OF direct] afterPass_def collectAndUpdate_pageOf)
  next
    case (fetched h)
    obtain rules st2 where f:
      "fetchCSSRulesFromUrl h (log (ProcessingSheet i (length (styleSheets st))) st) = (rules, st2)"
      by (cases "fetchCSSRulesFromUrl h (log (ProcessingSheet i (length (styleSheets st))) st)")
    from fetch_pageOf[OF f] have "pageOf (st2\<lparr>requestedCssFiles := insert h (requestedCssFiles st2)\<rparr>) = pageOf st"
      by (simp add: pageOf_def log_def)
    then show ?thesis
      by (simp add: processSheet_fetched[OF fetched] f afterPass_def collectAndUpdate_pageOf)
  qed
qed


section \<open>The loop over the live list\<close>

declare sheetLoop.simps [simp del]

lemma sheetLoop_stop: "\<not> i < length (styleSheets st) \<Longrightarrow> sheetLoop i st = Inr st"
  by (subst sheetLoop.simps) simp

lemma sheetLoop_Inl:
  "i < length (styleSheets st) \<Longrightarrow> processSheet (styleSheets st ! i) (Suc i) st = Inl x \<Longrightarrow>
   sheetLoop i st = Inl x"
  by (subst sheetLoop.simps) simp

lemma sheetLoop_Inr:
  "i < length (styleSheets st) \<Longrightarrow> processSheet (styleSheets st ! i) (Suc i) st = Inr st1 \<Longrightarrow>
   sheetLoop i st = sheetLoop (Suc i) st1"
  by (subst sheetLoop.simps) simp

lemma ownSheets_hasOwner: "list_all hasOwner (ownSheets st)"
  by (simp add: ownSheets_def hasOwner_def split: option.splits)

lemma styleSheets_hasOwner:
  assumes "list_all hasOwner (doc_pageSheets st)" and "i < length (styleSheets st)"
  shows "hasOwner (styleSheets st ! i)"
proof -
  have "list_all hasOwner (styleSheets st)"
    using assms(1) ownSheets_hasOwner[of st]
    by (auto simp: styleSheets_def list_all_iff dest: in_set_takeD in_set_dropD)
  with assms(2) show ?thesis by (simp add: list_all_length)
qed

lemma styleSheets_length: "length (doc_pageSheets st) \<le> length (styleSheets st)"
  by (simp add: styleSheets_def)

lemma styleSheets_unreadable: "\<not> overrideReadable st \<Longrightarrow> styleSheets st = doc_pageSheets st"
  by (auto simp: styleSheets_def ownSheets_def overrideReadable_def split: option.splits)

text \<open>A relation that every iteration keeps is kept by the loop.\<close>

lemma sheetLoop_rel:
  assumes refl: "\<And>s. R s s"
    and trans: "\<And>a b c. R a b \<Longrightarrow> R b c \<Longrightarrow> R a c"
    and step: "\<And>sh k s. R s (afterPass (processSheet sh k s))"
  shows "R st (afterPass (sheetLoop i st))"
proof (induction i st rule: sheetLoop.induct)
  case (1 i st)
  show ?case
  proof (cases "i < length (styleSheets st)")
    case False
    then show ?thesis by (simp add: sheetLoop_stop afterPass_def refl)
  next
    case True
    show ?thesis
    proof (cases "processSheet (styleSheets st ! i) (Suc i) st")
      case (Inl x)
      with True have "sheetLoop i st = processSheet (styleSheets st ! i) (Suc i) st"
        by (simp add: sheetLoop_Inl)
      then show ?thesis using step[of st "styleSheets st ! i" "Suc i"] by simp
    next
      case (Inr st1)
      with True have e: "sheetLoop i st = sheetLoop (Suc i) st1" by (simp add: sheetLoop_Inr)
      have a: "R st st1" using step[of st "styleSheets st ! i" "Suc i"] Inr
        by (simp add: afterPass_def)
      have b: "R st1 (afterPass (sheetLoop (Suc i) st1))" using "1.IH"[OF True Inr] .
      show ?thesis unfolding e by (rule trans[OF a b])
    qed
  qed
qed

lemma updateFontFamilyRules_rel:
  assumes refl: "\<And>s. R s s"
    and trans: "\<And>a b c. R a b \<Longrightarrow> R b c \<Longrightarrow> R a c"
    and step: "\<And>sh k s. R s (afterPass (processSheet sh k s))"
    and logs: "\<And>m s. R s (log m s)"
  shows "R st (afterPass (updateFontFamilyRules st))"
proof (cases "sheetLoop 0 st")
  case (Inl x)
  with sheetLoop_rel[of R st 0, OF refl trans step] show ?thesis
    by (simp add: updateFontFamilyRules_def)
next
  case (Inr st1)
  with sheetLoop_rel[of R st 0, OF refl trans step] have "R st st1" by (simp add: afterPass_def)
  from trans[OF this logs[of st1 "FinishedLooping (length (styleSheets st1))"]] Inr
  show ?thesis by (simp add: updateFontFamilyRules_def afterPass_def)
qed

lemma updateFontFamilyRules_pageOf: "pageOf (afterPass (updateFontFamilyRules st)) = pageOf st"
proof -
  have "pageOf st = pageOf (afterPass (updateFontFamilyRules st))"
    by (rule updateFontFamilyRules_rel[of "\<lambda>a b. pageOf a = pageOf b"])
      (simp_all add: processSheet_pageOf)
  then show ?thesis by simp
qed

text \<open>The whole loop, over sheets that all have an owner node.\<close>

lemma sheetLoop_steps:
  assumes "list_all hasOwner (doc_pageSheets st)"
  shows "\<exists>st' c. sheetLoop i st = Inr st' \<and> console st' = console st @ c
     \<and> runCount st' = runCount st
     \<and> doc_pageSheets st' = doc_pageSheets st
     \<and> overrideReadable st' = overrideReadable st
     \<and> (\<forall>j. i \<le> j \<and> j < length (doc_pageSheets st) \<longrightarrow>
           (\<exists>n. Log (runCount st) (ProcessingSheet (Suc j) n) \<in> set c))
     \<and> (\<forall>j. i \<le> j \<and> j < length (doc_pageSheets st)
             \<and> \<not> overrideReadable st \<and> readableSheet (doc_pageSheets st ! j) \<longrightarrow>
           (\<exists>n. LogError (runCount st) (ErrorRetrieving (Suc j) n) \<in> set c))"
  using assms
proof (induction i st rule: sheetLoop.induct)
  case (1 i st)
  show ?case
  proof (cases "i < length (styleSheets st)")
    case False
    with styleSheets_length[of st] have le: "length (doc_pageSheets st) \<le> i" by simp
    have A: "sheetLoop i st = Inr st" using False by (rule sheetLoop_stop)
    have N: "\<forall>j. i \<le> j \<and> j < length (doc_pageSheets st) \<longrightarrow> P j" for P
      using le by auto
    have M: "\<forall>j. i \<le> j \<and> j < length (doc_pageSheets st) \<and> Q j \<longrightarrow> P j" for P Q
      using le by auto
    show ?thesis
      by (rule exI[of _ st], rule exI[of _ "[]"]) (intro conjI A N M, simp_all)
  next
    case True
    from styleSheets_hasOwner[OF "1.prems" True] have own: "hasOwner (styleSheets st ! i)" .
    from processSheet_step[OF own, of "Suc i" st] obtain st1 c1 where
      p: "processSheet (styleSheets st ! i) (Suc i) st = Inr st1"
      and c1: "console st1 = console st @ c1"
      and l1: "\<exists>n. Log (runCount st) (ProcessingSheet (Suc i) n) \<in> set c1"
      and rc1: "runCount st1 = runCount st" and ps1: "doc_pageSheets st1 = doc_pageSheets st"
      and r1: "overrideReadable st1 = overrideReadable st"
      and e1: "if \<not> overrideReadable st \<and> readableSheet (styleSheets st ! i)
           then \<exists>n. LogError (runCount st) (ErrorRetrieving (Suc i) n) \<in> set c1 else True"
      by blast
    have "list_all hasOwner (doc_pageSheets st1)" using "1.prems" ps1 by simp
    from "1.IH"[OF True p this] obtain st' c2 where
      s: "sheetLoop (Suc i) st1 = Inr st'" and c2: "console st' = console st1 @ c2"
      and rc2: "runCount st' = runCount st1" and ps2: "doc_pageSheets st' = doc_pageSheets st1"
      and r2: "overrideReadable st' = overrideReadable st1"
      and l2: "\<forall>j. Suc i \<le> j \<and> j < length (doc_pageSheets st1) \<longrightarrow>
             (\<exists>n. Log (runCount st1) (ProcessingSheet (Suc j) n) \<in> set c2)"
      and e2: "\<forall>j. Suc i \<le> j \<and> j < length (doc_pageSheets st1)
               \<and> \<not> overrideReadable st1 \<and> readableSheet (doc_pageSheets st1 ! j) \<longrightarrow>
             (\<exists>n. LogError (runCount st1) (ErrorRetrieving (Suc j) n) \<in> set c2)"
      by blast
    have A: "sheetLoop i st = Inr st'" using sheetLoop_Inr[OF True p] s by simp
    have B: "console st' = console st @ (c1 @ c2)" using c1 c2 by simp
    have D: "\<forall>j. i \<le> j \<and> j < length (doc_pageSheets st) \<longrightarrow>
           (\<exists>n. Log (runCount st) (ProcessingSheet (Suc j) n) \<in> set (c1 @ c2))"
    proof (intro allI impI)
      fix j assume j: "i \<le> j \<and> j < length (doc_pageSheets st)"
      show "\<exists>n. Log (runCount st) (ProcessingSheet (Suc j) n) \<in> set (c1 @ c2)"
      proof (cases "j = i")
        case True
        from l1 obtain n where "Log (runCount st) (ProcessingSheet (Suc i) n) \<in> set c1" ..
        then show ?thesis unfolding True by (intro exI[of _ n]) simp
      next
        case False
        with j have "Suc i \<le> j \<and> j < length (doc_pageSheets st1)" by (simp add: ps1)
        with l2 obtain n where "Log (runCount st1) (ProcessingSheet (Suc j) n) \<in> set c2" by blast
        then show ?thesis unfolding rc1 by (intro exI[of _ n]) simp
      qed
    qed
    have E: "\<forall>j. i \<le> j \<and> j < length (doc_pageSheets st)
             \<and> \<not> overrideReadable st \<and> readableSheet (doc_pageSheets st ! j) \<longrightarrow>
           (\<exists>n. LogError (runCount st) (ErrorRetrieving (Suc j) n) \<in> set (c1 @ c2))"
    proof (intro allI impI)
      fix j assume j: "i \<le> j \<and> j < length (doc_pageSheets st)
             \<and> \<not> overrideReadable st \<and> readableSheet (doc_pageSheets st ! j)"
      then have nr: "\<not> overrideReadable st" by simp
      show "\<exists>n. LogError (runCount st) (ErrorRetrieving (Suc j) n) \<in> set (c1 @ c2)"
      proof (cases "j = i")
        case True
        with j styleSheets_unreadable[OF nr] have "readableSheet (styleSheets st ! i)" by simp
        with e1 nr obtain n where "LogError (runCount st) (ErrorRetrieving (Suc i) n) \<in> set c1"
          by auto
        then show ?thesis unfolding True by (intro exI[of _ n]) simp
      next
        case False
        with j have "Suc i \<le> j \<and> j < length (doc_pageSheets st1)
               \<and> \<not> overrideReadable st1 \<and> readableSheet (doc_pageSheets st1 ! j)"
          by (simp add: ps1 r1)
        with e2 obtain n where "LogError (runCount st1) (ErrorRetrieving (Suc j) n) \<in> set c2"
          by blast
        then show ?thesis unfolding rc1 by (intro exI[of _ n]) simp
      qed
    qed
    have F: "runCount st' = runCount st" "doc_pageSheets st' = doc_pageSheets st"
      "overrideReadable st' = overrideReadable st"
      using rc1 rc2 ps1 ps2 r1 r2 by simp_all
    show ?thesis
      by (rule exI[of _ st'], rule exI[of _ "c1 @ c2"]) (intro conjI A B F D E)
  qed
qed

lemma updateFontFamilyRules_steps:
  assumes "list_all hasOwner (doc_pageSheets st)"
  shows "\<exists>st' c. updateFontFamilyRules st = Inr st' \<and> console st' = console st @ c
     \<and> runCount st' = runCount st
     \<and> (\<forall>j<length (doc_pageSheets st). \<exists>n. Log (runCount st) (ProcessingSheet (Suc j) n) \<in> set c)
     \<and> (\<forall>j<length (doc_pageSheets st). \<not> overrideReadable st \<and> readableSheet (doc_pageSheets st ! j) \<longrightarrow>
           (\<exists>n. LogError (runCount st) (ErrorRetrieving (Suc j) n) \<in> set c))"
proof -
  from sheetLoop_steps[OF assms, of 0] obtain st1 c1 where
    H: "sheetLoop 0 st = Inr st1 \<and> console st1 = console st @ c1
     \<and> runCount st1 = runCount st
     \<and> doc_pageSheets st1 = doc_pageSheets st
     \<and> overrideReadable st1 = overrideReadable st
     \<and> (\<forall>j. 0 \<le> j \<and> j < length (doc_pageSheets st) \<longrightarrow>
           (\<exists>n. Log (runCount st) (ProcessingSheet (Suc j) n) \<in> set c1))
     \<and> (\<forall>j. 0 \<le> j \<and> j < length (doc_pageSheets st)
             \<and> \<not> overrideReadable st \<and> readableSheet (doc_pageSheets st ! j) \<longrightarrow>
           (\<exists>n. LogError (runCount st) (ErrorRetrieving (Suc j) n) \<in> set c1))"
    by (elim exE) (rule that)
  from H have s1: "sheetLoop 0 st = Inr st1" and c1: "console st1 = console st @ c1"
    and rc1: "runCount st1 = runCount st"
    by simp_all
  from H have l1: "\<forall>j<length (doc_pageSheets st).
      \<exists>n. Log (runCount st) (ProcessingSheet (Suc j) n) \<in> set c1"
    by simp
  from H have e1: "\<forall>j<length (doc_pageSheets st).
      \<not> overrideReadable st \<and> readableSheet (doc_pageSheets st ! j) \<longrightarrow>
      (\<exists>n. LogError (runCount st) (ErrorRetrieving (Suc j) n) \<in> set c1)"
    by simp
  let ?fin = "Log (runCount st) (FinishedLooping (length (styleSheets st1)))"
  let ?st' = "log (FinishedLooping (length (styleSheets st1))) st1"
  have A: "updateFontFamilyRules st = Inr ?st'"
    using s1 by (simp add: updateFontFamilyRules_def)
  have B: "console ?st' = console st @ (c1 @ [?fin])"
    using c1 rc1 by (simp add: log_def)
  have D: "runCount ?st' = runCount st" using rc1 by (simp add: log_def)
  have L: "\<forall>j<length (doc_pageSheets st).
      \<exists>n. Log (runCount st) (ProcessingSheet (Suc j) n) \<in> set (c1 @ [?fin])"
    using l1 by auto
  have E: "\<forall>j<length (doc_pageSheets st).
      \<not> overrideReadable st \<and> readableSheet (doc_pageSheets st ! j) \<longrightarrow>
      (\<exists>n. LogError (runCount st) (ErrorRetrieving (Suc j) n) \<in> set (c1 @ [?fin]))"
    using e1 by auto
  show ?thesis
    by (rule exI[of _ ?st'], rule exI[of _ "c1 @ [?fin]"]) (intro conjI A B D L E)
qed

section \<open>A list that keeps its order\<close>














section \<open>One update for each sheet\<close>












section \<open>Exceptions in the loop\<close>



section \<open>Properties of the Mutation Watcher\<close>

lemma visitNode_eq:
  "visitNode (b, known) node =
     (if isNewSheetNode known node then (True, insert (newStylesheetIdentifier node) known)
      else (b, known))"
  by (auto simp: visitNode_def isNewSheetNode_def)

lemma foldl_visitNode_fst:
  "fst (foldl visitNode (b, known) nodes) \<longleftrightarrow> b \<or> (\<exists>node \<in> set nodes. isNewSheetNode known node)"
proof (induction nodes arbitrary: b known)
  case Nil
  show ?case by simp
next
  case (Cons node rest)
  show ?case by (auto simp: visitNode_eq Cons)
qed

lemma foldl_visitNode_same:
  "\<not> (\<exists>node \<in> set nodes. isNewSheetNode known node) \<Longrightarrow>
   foldl visitNode (b, known) nodes = (b, known)"
  by (induction nodes) (simp_all add: visitNode_eq)

lemma foldl_mutations:
  "foldl (\<lambda>acc m. foldl visitNode acc (addedNodes m)) acc mutations
     = foldl visitNode acc (allAddedNodes mutations)"
  by (induction mutations arbitrary: acc) (simp_all add: allAddedNodes_def)

lemma styleSheetsChanged_false:
  assumes "\<not> (\<exists>node \<in> set (allAddedNodes mutations). isNewSheetNode (lastStyleSheets st) node)"
  shows "styleSheetsChanged mutations st = (False, st)"
  using foldl_visitNode_same[OF assms, of False]
  by (simp add: styleSheetsChanged_def foldl_mutations)

lemma styleSheetsChanged_true:
  assumes "\<exists>node \<in> set (allAddedNodes mutations). isNewSheetNode (lastStyleSheets st) node"
  shows "\<exists>known. styleSheetsChanged mutations st = (True, st\<lparr>lastStyleSheets := known\<rparr>)"
proof -
  obtain b known where f: "foldl visitNode (False, lastStyleSheets st) (allAddedNodes mutations) = (b, known)"
    by (cases "foldl visitNode (False, lastStyleSheets st) (allAddedNodes mutations)")
  with foldl_visitNode_fst[of False "lastStyleSheets st" "allAddedNodes mutations"] assms
  have "b" by simp
  with f have "styleSheetsChanged mutations st = (True, st\<lparr>lastStyleSheets := known\<rparr>)"
    by (simp add: styleSheetsChanged_def foldl_mutations)
  then show ?thesis by (rule exI[of _ known])
qed

text \<open>
  C8, as amended. A node carrying the extension's id never counts. If no other added
  node is a stylesheet link, a preload-as-style link or a style element with an
  identifier not seen before, the pipeline does not run (the state is unchanged but
  for the elements) and the preserver runs over every element. If some such node is
  added, the pipeline runs, and when it returns (every sheet having an owner node) the
  run counter is incremented and the preserver runs over every element.
\<close>

theorem mutation_gating:
  "(\<not> (\<exists>node \<in> set (allAddedNodes mutations). isNewSheetNode (lastStyleSheets st) node) \<longrightarrow>
      observerCallback mutations st = Inr (st\<lparr>doc_elements := preserveAll (doc_elements st)\<rparr>))
   \<and> ((\<exists>node \<in> set (allAddedNodes mutations). isNewSheetNode (lastStyleSheets st) node)
        \<and> list_all hasOwner (doc_pageSheets st) \<longrightarrow>
      (\<exists>st1 st2. styleSheetsChanged mutations st = (True, st1)
         \<and> updateFontFamilyRules (log RunningFixer st1) = Inr st2
         \<and> observerCallback mutations st =
             Inr (st2\<lparr>runCount := Suc (runCount st),
                      doc_elements := preserveAll (doc_elements st)\<rparr>)))"
proof (intro conjI impI)
  assume "\<not> (\<exists>node \<in> set (allAddedNodes mutations). isNewSheetNode (lastStyleSheets st) node)"
  from styleSheetsChanged_false[OF this]
  show "observerCallback mutations st = Inr (st\<lparr>doc_elements := preserveAll (doc_elements st)\<rparr>)"
    by (simp add: observerCallback_def)
next
  assume a: "(\<exists>node \<in> set (allAddedNodes mutations). isNewSheetNode (lastStyleSheets st) node)
        \<and> list_all hasOwner (doc_pageSheets st)"
  from styleSheetsChanged_true[of mutations st] a obtain known where
    c: "styleSheetsChanged mutations st = (True, st\<lparr>lastStyleSheets := known\<rparr>)" by blast
  let ?st1 = "st\<lparr>lastStyleSheets := known\<rparr>"
  have "list_all hasOwner (doc_pageSheets (log RunningFixer ?st1))"
    using a by (simp add: log_def)
  from updateFontFamilyRules_steps[OF this] obtain st2 where
    u: "updateFontFamilyRules (log RunningFixer ?st1) = Inr st2" by blast
  from updateFontFamilyRules_pageOf[of "log RunningFixer ?st1"] u
  have "doc_elements st2 = doc_elements st" "runCount st2 = runCount st"
    by (simp_all add: afterPass_def pageOf_def log_def)
  with c u show "\<exists>st1 st2. styleSheetsChanged mutations st = (True, st1)
         \<and> updateFontFamilyRules (log RunningFixer st1) = Inr st2
         \<and> observerCallback mutations st =
             Inr (st2\<lparr>runCount := Suc (runCount st),
                      doc_elements := preserveAll (doc_elements st)\<rparr>)"
    by (simp add: observerCallback_def)
qed

lemma preserveAll_arial: "preserveAll [arialElement] = [arialPreserved]"
  by (simp add: preserveAll_def preserveCustomFonts_def arialElement_def arialPreserved_def
      startsWith_def matchAt_def matchAfterColon_def isSpace_def importantOk_def tailOk_def
      trim_def oneDeclarationAfter_def)

theorem mutation_gating_witness:
  "\<not> (\<exists>node \<in> set (allAddedNodes [\<lparr>addedNodes = [divNode]\<rparr>]).
         isNewSheetNode (lastStyleSheets gatingPage) node)
   \<and> observerCallback [\<lparr>addedNodes = [divNode]\<rparr>] gatingPage
       = Inr (gatingPage\<lparr>doc_elements := [arialPreserved]\<rparr>)
   \<and> (\<exists>node \<in> set (allAddedNodes [\<lparr>addedNodes = [linkNode]\<rparr>]).
         isNewSheetNode (lastStyleSheets gatingPage) node)
   \<and> list_all hasOwner (doc_pageSheets gatingPage)
   \<and> (\<exists>st1 st2. styleSheetsChanged [\<lparr>addedNodes = [linkNode]\<rparr>] gatingPage = (True, st1)
         \<and> updateFontFamilyRules (log RunningFixer st1) = Inr st2
         \<and> observerCallback [\<lparr>addedNodes = [linkNode]\<rparr>] gatingPage =
             Inr (st2\<lparr>runCount := Suc 0, doc_elements := [arialPreserved]\<rparr>))"
proof -
  have e: "doc_elements gatingPage = [arialElement]" "runCount gatingPage = 0"
    "lastStyleSheets gatingPage = {}"
    by (simp_all add: gatingPage_def twoSheets_def blankPage_def)
  have 1: "\<not> (\<exists>node \<in> set (allAddedNodes [\<lparr>addedNodes = [divNode]\<rparr>]).
         isNewSheetNode (lastStyleSheets gatingPage) node)"
    by (simp add: allAddedNodes_def isNewSheetNode_def isStylesheet_def isStyleNode_def divNode_def)
  have 2: "\<exists>node \<in> set (allAddedNodes [\<lparr>addedNodes = [linkNode]\<rparr>]).
         isNewSheetNode (lastStyleSheets gatingPage) node"
    by (simp add: allAddedNodes_def isNewSheetNode_def isStylesheet_def linkNode_def e
        extentionStyleTagId_def)
  have 3: "list_all hasOwner (doc_pageSheets gatingPage)"
    by (simp add: gatingPage_def twoSheets_def blankPage_def pageSheet_def hasOwner_def)
  from mutation_gating[of "[\<lparr>addedNodes = [divNode]\<rparr>]" gatingPage] 1
  have a: "observerCallback [\<lparr>addedNodes = [divNode]\<rparr>] gatingPage
       = Inr (gatingPage\<lparr>doc_elements := [arialPreserved]\<rparr>)"
    by (simp add: e preserveAll_arial)
  from mutation_gating[of "[\<lparr>addedNodes = [linkNode]\<rparr>]" gatingPage] 2 3
  have b: "\<exists>st1 st2. styleSheetsChanged [\<lparr>addedNodes = [linkNode]\<rparr>] gatingPage = (True, st1)
         \<and> updateFontFamilyRules (log RunningFixer st1) = Inr st2
         \<and> observerCallback [\<lparr>addedNodes = [linkNode]\<rparr>] gatingPage =
             Inr (st2\<lparr>runCount := Suc 0, doc_elements := [arialPreserved]\<rparr>)"
    by (simp add: e preserveAll_arial)
  from 1 2 3 a b show ?thesis by blast
qed

text \<open>
  C8 as stated fails: the style element of the extension itself, added with a text not
  seen before, is a new style element, and the pipeline does not run for it; the
  console stays empty and the run counter stays at 0.
\<close>

theorem own_node_does_not_trigger_counterexample:
  "isStyleNode ownNode
   \<and> newStylesheetIdentifier ownNode \<notin> lastStyleSheets gatingPage
   \<and> observerCallback [\<lparr>addedNodes = [ownNode]\<rparr>] gatingPage
       = Inr (gatingPage\<lparr>doc_elements := [arialPreserved]\<rparr>)
   \<and> console (gatingPage\<lparr>doc_elements := [arialPreserved]\<rparr>) = []
   \<and> runCount (gatingPage\<lparr>doc_elements := [arialPreserved]\<rparr>) = 0"
proof -
  have e: "doc_elements gatingPage = [arialElement]" "runCount gatingPage = 0"
    "lastStyleSheets gatingPage = {}" "console gatingPage = []"
    by (simp_all add: gatingPage_def twoSheets_def blankPage_def)
  have "styleSheetsChanged [\<lparr>addedNodes = [ownNode]\<rparr>] gatingPage = (False, gatingPage)"
    by (simp add: styleSheetsChanged_def visitNode_def ownNode_def e)
  then have "observerCallback [\<lparr>addedNodes = [ownNode]\<rparr>] gatingPage
       = Inr (gatingPage\<lparr>doc_elements := [arialPreserved]\<rparr>)"
    by (simp add: observerCallback_def e preserveAll_arial)
  then show ?thesis
    by (simp add: e isStyleNode_def ownNode_def)
qed

section \<open>Properties of the Inline Style Preserver\<close>






section \<open>Repeated passes\<close>



lemma quietly_log: "quietly st (log m st)" "quietly st (logError m st)"
proof -
  show "quietly st (log m st)"
    unfolding quietly_def log_def
    by (rule exI[of _ "[Log (runCount st) m]"], rule exI[of _ "doc_ownIndex st"]) simp
  show "quietly st (logError m st)"
    unfolding quietly_def logError_def
    by (rule exI[of _ "[LogError (runCount st) m]"], rule exI[of _ "doc_ownIndex st"]) simp
qed

lemma quietly_fields:
  assumes "quietly st st'"
  shows "doc_override st' = doc_override st" "doc_head st' = doc_head st"
    "requestedCssFiles st' = requestedCssFiles st" "doc_pageSheets st' = doc_pageSheets st"
    "fetches st' = fetches st"
  using assms by (auto simp: quietly_def)

































section \<open>The fallback fetch and the set of requested addresses\<close>

lemma fetch_split:
  "fetchCSSRulesFromUrl h st = (case fetch_request h st of (pending, st1) \<Rightarrow> fetch_response h pending st1)"
  by (simp add: fetchCSSRulesFromUrl_def fetch_request_def fetch_response_def Let_def
      log_def logError_def)

text \<open>Run without anything in between, the two halves are the iteration of the loop.\<close>

lemma processSheet_split:
  "processSheet sh i st =
     (case processSheet_begin sh i st of
        Inl r \<Rightarrow> r
      | Inr (k, st1) \<Rightarrow> Inr (processSheet_resume k st1))"
  by (simp add: processSheet_def processSheet_begin_def processSheet_resume_def fetch_split Let_def
      split: option.splits prod.splits)

lemma fetchStep_refl: "fetchStep st st"
  unfolding fetchStep_def by (rule exI[of _ "[]"]) simp

lemma fetchStep_trans:
  assumes "fetchStep a b" and "fetchStep b c"
  shows "fetchStep a c"
proof -
  from assms obtain f g where
    f: "fetches b = fetches a @ f" "distinct f" "set f \<inter> requestedCssFiles a = {}"
       "set f \<subseteq> requestedCssFiles b" "requestedCssFiles a \<subseteq> requestedCssFiles b"
    and g: "fetches c = fetches b @ g" "distinct g" "set g \<inter> requestedCssFiles b = {}"
       "set g \<subseteq> requestedCssFiles c" "requestedCssFiles b \<subseteq> requestedCssFiles c"
    unfolding fetchStep_def by blast
  have "fetches c = fetches a @ (f @ g)" using f g by simp
  moreover have "distinct (f @ g)" using f g by auto
  moreover have "set (f @ g) \<inter> requestedCssFiles a = {}" using f g by auto
  moreover have "set (f @ g) \<subseteq> requestedCssFiles c" using f g by auto
  moreover have "requestedCssFiles a \<subseteq> requestedCssFiles c" using f g by auto
  ultimately show ?thesis unfolding fetchStep_def by blast
qed

lemma fetchStep_same:
  "fetches st' = fetches st \<Longrightarrow> requestedCssFiles st' = requestedCssFiles st \<Longrightarrow> fetchStep st st'"
  unfolding fetchStep_def by (rule exI[of _ "[]"]) simp

lemma fetchStep_quietly: "quietly st st' \<Longrightarrow> fetchStep st st'"
  by (rule fetchStep_same) (simp_all add: quietly_fields)

lemma fetch_fetches:
  assumes "fetchCSSRulesFromUrl h st = (rules, st2)"
  shows "fetches st2 = fetches st \<or> fetches st2 = fetches st @ [h]"
  using assms
  by (auto simp: fetchCSSRulesFromUrl_def Let_def log_def logError_def
      split: if_splits option.splits)

lemma processSheet_fetchStep: "fetchStep st (afterPass (processSheet sh i st))"
proof (cases "hasOwner sh")
  case False
  then show ?thesis
    by (simp add: hasOwner_def processSheet_orphan afterPass_def fetchStep_quietly quietly_log)
next
  case True
  consider (a) "\<not> reachesBuilder (requestedCssFiles st) sh"
    | (b) "readableSheet sh"
    | (c) h where "inaccessibleLink sh h" "h \<notin> requestedCssFiles st"
    by (auto simp: reachesBuilder_iff)
  then show ?thesis
  proof cases
    case a
    show ?thesis
      by (simp add: processSheet_skip[OF True a] afterPass_def fetchStep_quietly quietly_log)
  next
    case b
    show ?thesis
      by (rule fetchStep_same)
        (simp_all add: processSheet_direct[OF b] afterPass_def collectAndUpdate_frame log_def)
  next
    case (c h)
    let ?st1 = "log (ProcessingSheet i (length (styleSheets st))) st"
    obtain rules st2 where f: "fetchCSSRulesFromUrl h ?st1 = (rules, st2)"
      by (cases "fetchCSSRulesFromUrl h ?st1")
    let ?s1 = "log (FetchedCSS (length rules) i
               (length (styleSheets (st2\<lparr>requestedCssFiles := insert h (requestedCssFiles st2)\<rparr>))))
               (st2\<lparr>requestedCssFiles := insert h (requestedCssFiles st2)\<rparr>)"
    let ?st' = "afterPass (processSheet sh i st)"
    have p: "?st' = collectAndUpdate rules i ?s1"
      using processSheet_fetched[OF c, of i] f by (simp add: afterPass_def)
    have r: "requestedCssFiles ?st' = insert h (requestedCssFiles st)"
      using fetch_effect(4)[OF f] by (simp add: p collectAndUpdate_frame log_def)
    from fetch_fetches[OF f] have "fetches ?st' = fetches st \<or> fetches ?st' = fetches st @ [h]"
      by (simp add: p collectAndUpdate_frame log_def)
    then show ?thesis
    proof
      assume "fetches ?st' = fetches st"
      with r show ?thesis unfolding fetchStep_def by (intro exI[of _ "[]"]) auto
    next
      assume "fetches ?st' = fetches st @ [h]"
      with r c(2) show ?thesis unfolding fetchStep_def by (intro exI[of _ "[h]"]) auto
    qed
  qed
qed

lemma updateFontFamilyRules_fetchStep: "fetchStep st (afterPass (updateFontFamilyRules st))"
proof (rule updateFontFamilyRules_rel[of fetchStep])
  show "fetchStep s s" for s by (rule fetchStep_refl)
  show "fetchStep a c" if "fetchStep a b" "fetchStep b c" for a b c
    using that by (rule fetchStep_trans)
  show "fetchStep s (afterPass (processSheet sh k s))" for sh k s by (rule processSheet_fetchStep)
  show "fetchStep s (log m s)" for m s by (rule fetchStep_quietly[OF quietly_log(1)])
qed

text \<open>
  Passes that run one after the other, on whatever pages: no address is requested
  twice, and an address once recorded is not requested again.
\<close>

lemma sequential_pass_keeps_ledger:
  assumes "fetchLedger st"
  shows "fetchLedger (afterPass (updateFontFamilyRules st))"
    and "h \<in> requestedCssFiles st \<Longrightarrow>
         count_list (fetches (afterPass (updateFontFamilyRules st))) h = count_list (fetches st) h"
proof -
  from updateFontFamilyRules_fetchStep[of st] obtain f where
    f: "fetches (afterPass (updateFontFamilyRules st)) = fetches st @ f" "distinct f"
       "set f \<inter> requestedCssFiles st = {}"
       "set f \<subseteq> requestedCssFiles (afterPass (updateFontFamilyRules st))"
       "requestedCssFiles st \<subseteq> requestedCssFiles (afterPass (updateFontFamilyRules st))"
    unfolding fetchStep_def by blast
  from assms f show "fetchLedger (afterPass (updateFontFamilyRules st))"
    unfolding fetchLedger_def by auto
  assume "h \<in> requestedCssFiles st"
  with f(3) have "h \<notin> set f" by auto
  then show "count_list (fetches (afterPass (updateFontFamilyRules st))) h = count_list (fetches st) h"
    by (simp add: f(1) count_list_0_iff)
qed

text \<open>
  C7 fails on the code when passes overlap. \<open>requestedCssFiles.has\<close> is tested before
  the \<open>await\<close> and \<open>requestedCssFiles.add\<close> runs after it: a second pass that visits the
  sheet while the first is suspended finds the address not recorded and requests it
  again. Two visits one after the other request it once.
\<close>

theorem overlapping_passes_fetch_twice:
  "map_option fetches (overlappingVisits (corsSheet cdnUrl) corsPage) = Some [cdnUrl, cdnUrl]
   \<and> fetches (consecutiveVisits (corsSheet cdnUrl) corsPage) = [cdnUrl]"
proof -
  have i: "inaccessibleLink (corsSheet cdnUrl) cdnUrl"
    by (simp add: inaccessibleLink_def corsSheet_def cdnUrl_def extentionStyleTagId_def
        sheetMediaBlacklist_def)
  have n: "cdnUrl \<noteq> []" by (simp add: cdnUrl_def)
  have m: "[] \<notin> set sheetMediaBlacklist" "[] \<noteq> extentionStyleTagId"
    by (simp_all add: sheetMediaBlacklist_def extentionStyleTagId_def)
  let ?s0 = "log (ProcessingSheet 1 (length (styleSheets corsPage))) corsPage"
  let ?s1 = "(log (FetchingFrom cdnUrl) ?s0)\<lparr>fetches := [cdnUrl]\<rparr>"
  have b1: "processSheet_begin (corsSheet cdnUrl) 1 corsPage = Inr (Suspended cdnUrl True 1, ?s1)"
    using n m
    by (simp add: processSheet_begin_def corsSheet_def fetch_request_def Let_def)
      (simp add: corsPage_def blankPage_def log_def)
  let ?s2 = "log (ProcessingSheet 1 (length (styleSheets ?s1))) ?s1"
  let ?s3 = "(log (FetchingFrom cdnUrl) ?s2)\<lparr>fetches := [cdnUrl, cdnUrl]\<rparr>"
  have b2: "processSheet_begin (corsSheet cdnUrl) 1 ?s1 = Inr (Suspended cdnUrl True 1, ?s3)"
    using n m
    by (simp add: processSheet_begin_def corsSheet_def fetch_request_def Let_def)
      (simp add: corsPage_def blankPage_def log_def)
  have r: "fetches (processSheet_resume k st) = fetches st" for k st
    by (cases k)
      (auto simp: processSheet_resume_def fetch_response_def Let_def collectAndUpdate_frame
        log_def logError_def split: option.splits)
  have A: "map_option fetches (overlappingVisits (corsSheet cdnUrl) corsPage) = Some [cdnUrl, cdnUrl]"
    by (simp only: overlappingVisits_def b1 b2 sum.case prod.case option.map r) (simp add: log_def)
  let ?a = "afterPass (processSheet (corsSheet cdnUrl) 1 corsPage)"
  have q0: "cdnUrl \<notin> requestedCssFiles corsPage" by (simp add: corsPage_def blankPage_def)
  have "processSheet (corsSheet cdnUrl) 1 corsPage = Inr (processSheet_resume (Suspended cdnUrl True 1) ?s1)"
    by (simp only: processSheet_split b1 sum.case prod.case)
  then have fa: "fetches ?a = [cdnUrl]" and ra: "cdnUrl \<in> requestedCssFiles ?a"
    by (simp_all add: afterPass_def r)
      (simp add: processSheet_resume_def fetch_response_def Let_def collectAndUpdate_frame
        log_def logError_def split: option.splits prod.splits)
  from processSheet_requested[OF i ra, of 1] fa
  have B: "fetches (afterPass (processSheet (corsSheet cdnUrl) 1 ?a)) = [cdnUrl]"
    by (simp add: afterPass_def log_def)
  from A B show ?thesis by (simp add: consecutiveVisits_def)
qed

end
